theory Spec2Isabelle
  imports Complex_Main
begin

section \<open>Python values that the scripts handle\<close>

text \<open>
  The scripts \<^verbatim>\<open>01_audit_workbook.py\<close> and \<^verbatim>\<open>02_understand_pnl_sheets.py\<close> read
  worksheets with \<^verbatim>\<open>dtype=object\<close>, so a cell is a dynamically typed Python object.
  The model covers the cells that hold \<^verbatim>\<open>None\<close>, a \<^verbatim>\<open>bool\<close>, an \<^verbatim>\<open>int\<close>, a
  \<^verbatim>\<open>float\<close> or a \<^verbatim>\<open>str\<close>; cells that hold dates are not covered.

  Strings are lists of characters with code points below 256. The whitespace
  characters are those for which \<^verbatim>\<open>str.isspace\<close> holds: the ASCII ones, the next-line
  character \<^verbatim>\<open>\x85\<close> and the no-break space \<^verbatim>\<open>\xa0\<close>. They are what
  \<^verbatim>\<open>str.strip\<close>, \<^verbatim>\<open>float\<close> and the pattern \<^verbatim>\<open>\s\<close> take for whitespace. The
  cased characters of the model are the 52 ASCII letters and its digits are \<^verbatim>\<open>0\<close>
  to \<^verbatim>\<open>9\<close>.

  A \<^verbatim>\<open>float\<close> is an IEEE 754 double. A finite double is modelled by the rational
  number it denotes (so \<^verbatim>\<open>-0.0\<close> and \<^verbatim>\<open>0.0\<close>, which compare equal in Python, are
  the same value), the two infinities and NaN are separate values.
\<close>

datatype pyfloat = Fin rat | PInf | NInf | NaN

datatype cell = VNone | VBool bool | VInt int | VFloat pyfloat | VStr string

datatype error =
  IndexError | KeyError | ValueError | OverflowError | TypeError | AttributeError

subsection \<open>String methods\<close>

definition is_space :: "char \<Rightarrow> bool" where
  "is_space c \<longleftrightarrow>
     c \<in> set [CHR 0x09, CHR 0x0A, CHR 0x0B, CHR 0x0C, CHR 0x0D,
              CHR 0x1C, CHR 0x1D, CHR 0x1E, CHR 0x1F, CHR 0x20, CHR 0x85, CHR 0xA0]"

definition strip :: "string \<Rightarrow> string" where
  "strip s = rev (dropWhile is_space (rev (dropWhile is_space s)))"

definition lower_letters :: string where
  "lower_letters = ''abcdefghijklmnopqrstuvwxyz''"

definition upper_letters :: string where
  "upper_letters = ''ABCDEFGHIJKLMNOPQRSTUVWXYZ''"

definition upper_char :: "char \<Rightarrow> char" where
  "upper_char c = (case map_of (zip lower_letters upper_letters) c of Some u \<Rightarrow> u | None \<Rightarrow> c)"

definition lower_char :: "char \<Rightarrow> char" where
  "lower_char c = (case map_of (zip upper_letters lower_letters) c of Some l \<Rightarrow> l | None \<Rightarrow> c)"

definition upper :: "string \<Rightarrow> string" where
  "upper s = map upper_char s"

definition lower :: "string \<Rightarrow> string" where
  "lower s = map lower_char s"

text \<open>\<^verbatim>\<open>s.replace(c, "")\<close> for a one-character \<^verbatim>\<open>c\<close>.\<close>

definition remove_char :: "char \<Rightarrow> string \<Rightarrow> string" where
  "remove_char c s = filter (\<lambda>x. x \<noteq> c) s"

definition startswith :: "string \<Rightarrow> string \<Rightarrow> bool" where
  "startswith s p \<longleftrightarrow> take (length p) s = p"

definition endswith :: "string \<Rightarrow> string \<Rightarrow> bool" where
  "endswith s p \<longleftrightarrow> length p \<le> length s \<and> drop (length s - length p) s = p"

definition is_digit :: "char \<Rightarrow> bool" where
  "is_digit c \<longleftrightarrow> c \<in> set ''0123456789''"

definition digit_val :: "char \<Rightarrow> int" where
  "digit_val c = (case map_of (zip ''0123456789'' [0, 1, 2, 3, 4, 5, 6, 7, 8, 9]) c of
                    Some v \<Rightarrow> v | None \<Rightarrow> 0)"

text \<open>The value of a string of decimal digits, as \<^verbatim>\<open>int(s)\<close> reads it.\<close>

definition digits_val :: "string \<Rightarrow> int" where
  "digits_val s = foldl (\<lambda>a c. 10 * a + digit_val c) 0 s"

subsection \<open>The built-in \<^verbatim>\<open>float\<close>\<close>

text \<open>
  Rounding of a positive rational \<open>n / d\<close> to the nearest double, ties to even, as the
  conversions of CPython do. \<open>bit_length\<close> is \<^verbatim>\<open>int.bit_length\<close>; \<open>e\<close> is the binary
  exponent of \<open>n / d\<close>, \<open>p\<close> the exponent of the last place of a double of that size
  (53 significant bits, subnormal below \<open>2\<^sup>-\<^sup>1\<^sup>0\<^sup>2\<^sup>2\<close>). The result \<open>None\<close> stands
  for a value that rounds beyond the largest finite double.
\<close>

fun bit_length :: "int \<Rightarrow> int" where
  "bit_length n = (if n \<le> 0 then 0 else 1 + bit_length (n div 2))"

declare bit_length.simps [simp del]

definition pow2 :: "int \<Rightarrow> rat" where
  "pow2 e = (if 0 \<le> e then 2 ^ nat e else 1 / 2 ^ nat (- e))"

definition round_half_even :: "int \<Rightarrow> int \<Rightarrow> int" where
  "round_half_even n d =
     (let q = n div d; r = n mod d in
      if 2 * r < d then q
      else if d < 2 * r then q + 1
      else if even q then q else q + 1)"

definition round_double :: "int \<Rightarrow> int \<Rightarrow> rat option" where
  "round_double n d =
     (if n = 0 then Some 0
      else
        let k = bit_length n - bit_length d;
            e = (if n * 2 ^ nat (- k) < d * 2 ^ nat k then k - 1 else k);
            p = max (e - 52) (- 1074);
            m = round_half_even (n * 2 ^ nat (- p)) (d * 2 ^ nat p)
        in if 2 ^ 1024 \<le> of_int m * pow2 p then None else Some (of_int m * pow2 p))"

definition signed_float :: "bool \<Rightarrow> rat option \<Rightarrow> pyfloat" where
  "signed_float neg r =
     (case r of
        None \<Rightarrow> if neg then NInf else PInf
      | Some q \<Rightarrow> Fin (if neg then - q else q))"

text \<open>Unary minus on a float.\<close>

fun neg_float :: "pyfloat \<Rightarrow> pyfloat" where
  "neg_float (Fin q) = Fin (- q)"
| "neg_float PInf = NInf"
| "neg_float NInf = PInf"
| "neg_float NaN = NaN"

text \<open>
  \<^verbatim>\<open>float(n)\<close> for an \<^verbatim>\<open>int\<close>: the nearest double, and \<^verbatim>\<open>OverflowError\<close> when the
  integer is too large for a double.
\<close>

definition float_of_int :: "int \<Rightarrow> error + pyfloat" where
  "float_of_int n =
     (case round_double \<bar>n\<bar> 1 of
        None \<Rightarrow> Inl OverflowError
      | Some q \<Rightarrow> Inr (Fin (if n < 0 then - q else q)))"

text \<open>
  \<^verbatim>\<open>float(s)\<close> for a \<^verbatim>\<open>str\<close>; \<open>None\<close> is \<^verbatim>\<open>ValueError\<close>. The accepted texts are
  those of the language reference: surrounding whitespace, an optional sign, then
  \<^verbatim>\<open>inf\<close>, \<^verbatim>\<open>infinity\<close> or \<^verbatim>\<open>nan\<close> in any case, or a decimal number with an
  optional fraction and exponent; single underscores may stand between digits. A
  decimal number beyond the range of the doubles gives an infinity, not an error.
\<close>

fun underscores_ok :: "char \<Rightarrow> string \<Rightarrow> bool" where
  "underscores_ok prev [] \<longleftrightarrow> prev \<noteq> CHR ''_''"
| "underscores_ok prev (c # cs) \<longleftrightarrow>
     (if c = CHR ''_'' then is_digit prev
      else if prev = CHR ''_'' then is_digit c else True)
     \<and> underscores_ok c cs"

definition split_sign :: "string \<Rightarrow> bool \<times> string" where
  "split_sign s =
     (case s of
        [] \<Rightarrow> (False, [])
      | c # cs \<Rightarrow> if c = CHR ''-'' then (True, cs) else if c = CHR ''+'' then (False, cs)
                 else (False, s))"

definition parse_exponent :: "string \<Rightarrow> int option" where
  "parse_exponent s =
     (case s of
        [] \<Rightarrow> Some 0
      | c # cs \<Rightarrow>
          if c = CHR ''e'' \<or> c = CHR ''E'' then
            (let (neg, ds) = split_sign cs in
             if ds \<noteq> [] \<and> list_all is_digit ds
             then Some (if neg then - digits_val ds else digits_val ds)
             else None)
          else None)"

definition parse_decimal :: "string \<Rightarrow> (int \<times> int) option" where
  "parse_decimal s =
     (let ip = takeWhile is_digit s;
          r1 = dropWhile is_digit s;
          (fp, r2) = (case r1 of
                        [] \<Rightarrow> ([], [])
                      | c # cs \<Rightarrow> if c = CHR ''.''
                                 then (takeWhile is_digit cs, dropWhile is_digit cs)
                                 else ([], r1))
      in if ip = [] \<and> fp = [] then None
         else (case parse_exponent r2 of
                 None \<Rightarrow> None
               | Some x \<Rightarrow>
                   (let m = digits_val (ip @ fp); e = x - int (length fp)
                    in Some (if 0 \<le> e then (m * 10 ^ nat e, 1) else (m, 10 ^ nat (- e))))))"

definition float_of_str :: "string \<Rightarrow> pyfloat option" where
  "float_of_str s =
     (let t = strip s in
      if \<not> underscores_ok (CHR '' '') t then None
      else
        let (neg, body) = split_sign (remove_char (CHR ''_'') t) in
        if lower body = ''inf'' \<or> lower body = ''infinity'' then Some (if neg then NInf else PInf)
        else if lower body = ''nan'' then Some NaN
        else (case parse_decimal body of
                None \<Rightarrow> None
              | Some (n, d) \<Rightarrow> Some (signed_float neg (round_double n d))))"

section \<open>\<^verbatim>\<open>parse_messy_number\<close>\<close>

text \<open>
  The function is the same, line for line, in both scripts
  (\<^verbatim>\<open>01_audit_workbook.py\<close> and \<^verbatim>\<open>02_understand_pnl_sheets.py\<close>). The result
  \<open>Inr None\<close> is the returned \<^verbatim>\<open>None\<close>; \<open>Inl\<close> is an exception that leaves the
  function. \<^verbatim>\<open>str(x)\<close> of a \<^verbatim>\<open>str\<close> is the string itself.
\<close>

definition is_nan_cell :: "cell \<Rightarrow> bool" where
  "is_nan_cell x \<longleftrightarrow> x = VNone \<or> x = VFloat NaN"

text \<open>
  The two lines that rewrite \<^verbatim>\<open>s\<close> before the conversion:
  \<^verbatim>\<open>s.replace("(", "").replace(")", "")\<close>, then \<^verbatim>\<open>s.replace(",", "").strip()\<close>.
\<close>

definition without_parens_commas :: "string \<Rightarrow> string" where
  "without_parens_commas s =
     strip (remove_char (CHR '','') (remove_char (CHR '')'') (remove_char (CHR ''('') s)))"

definition parse_messy_text :: "string \<Rightarrow> pyfloat option" where
  "parse_messy_text x =
     (let s = strip x in
      if s = '''' \<or> s = ''-'' then None
      else
        let is_parens = startswith s ''('' \<and> endswith s '')'' in
        (case float_of_str (without_parens_commas s) of
           None \<Rightarrow> None
         | Some val \<Rightarrow> Some (if is_parens then neg_float val else val)))"

fun parse_messy_number :: "cell \<Rightarrow> error + pyfloat option" where
  "parse_messy_number VNone = Inr None"
| "parse_messy_number (VFloat f) = (if f = NaN then Inr None else Inr (Some f))"
| "parse_messy_number (VInt n) =
     (case float_of_int n of Inl e \<Rightarrow> Inl e | Inr f \<Rightarrow> Inr (Some f))"
| "parse_messy_number (VBool b) = Inr (Some (Fin (if b then 1 else 0)))"
| "parse_messy_number (VStr x) = Inr (parse_messy_text x)"

definition is_finite :: "pyfloat \<Rightarrow> bool" where
  "is_finite f = (case f of Fin q \<Rightarrow> True | _ \<Rightarrow> False)"

text \<open>
  The reading of ``unbalanced parentheses'' that is checked below: the text starts with
  an opening parenthesis and does not end with a closing one, or it has an opening
  parenthesis after its first character, or a closing one before its last character.
\<close>

definition unbalanced_parens :: "string \<Rightarrow> bool" where
  "unbalanced_parens s \<longleftrightarrow>
     (startswith s ''('' \<and> \<not> endswith s '')'')
     \<or> CHR ''('' \<in> set (tl s) \<or> CHR '')'' \<in> set (butlast s)"

section \<open>Text of a cell\<close>

subsection \<open>The built-in \<^verbatim>\<open>str\<close>\<close>

text \<open>
  \<^verbatim>\<open>str(x)\<close> of an \<^verbatim>\<open>int\<close> is its decimal numeral; of a \<^verbatim>\<open>bool\<close> it is
  \<^verbatim>\<open>True\<close> or \<^verbatim>\<open>False\<close>; of \<^verbatim>\<open>None\<close> it is \<^verbatim>\<open>None\<close>.
\<close>

definition digit_char :: "int \<Rightarrow> char" where
  "digit_char n = ''0123456789'' ! nat n"

fun digits_of :: "int \<Rightarrow> string" where
  "digits_of n = (if n < 10 then [digit_char n] else digits_of (n div 10) @ [digit_char (n mod 10)])"

declare digits_of.simps [simp del]

definition str_of_int :: "int \<Rightarrow> string" where
  "str_of_int n = (if n < 0 then CHR ''-'' # digits_of (- n) else digits_of n)"

text \<open>
  \<^verbatim>\<open>str(x)\<close> of a \<^verbatim>\<open>float\<close> is its \<^verbatim>\<open>repr\<close>: the shortest decimal numeral that
  converts back to the same double, the one nearest to the double when several have
  that length, written with an exponent when the decimal point would stand more than
  16 places right or more than 4 places left of the first digit.

  \<open>floor_log10 n d\<close> is the decimal exponent of \<open>n / d\<close>; \<open>shortest_with n d e p\<close> is
  the numeral of \<open>p\<close> digits that stands for \<open>n / d\<close>, when there is one.
\<close>

fun dec_length :: "int \<Rightarrow> int" where
  "dec_length n = (if n \<le> 0 then 0 else 1 + dec_length (n div 10))"

declare dec_length.simps [simp del]

definition floor_log10 :: "int \<Rightarrow> int \<Rightarrow> int" where
  "floor_log10 n d =
     (let k = dec_length n - dec_length d
      in if n * 10 ^ nat (- k) < d * 10 ^ nat k then k - 1 else k)"

definition times_pow10 :: "int \<Rightarrow> int \<Rightarrow> int \<Rightarrow> int \<times> int" where
  "times_pow10 n d q = (if 0 \<le> q then (n * 10 ^ nat q, d) else (n, d * 10 ^ nat (- q)))"

definition round_trips :: "int \<Rightarrow> int \<Rightarrow> int \<Rightarrow> int \<Rightarrow> bool" where
  "round_trips n d m q \<longleftrightarrow>
     (let (a, b) = times_pow10 m 1 (- q) in round_double a b = round_double n d)"

definition shortest_with :: "int \<Rightarrow> int \<Rightarrow> int \<Rightarrow> int \<Rightarrow> int option" where
  "shortest_with n d e p =
     (let q = p - 1 - e;
          (a, b) = times_pow10 n d q;
          lo = a div b;
          hi = lo + 1;
          lo_ok = round_trips n d lo q;
          hi_ok = round_trips n d hi q
      in if lo_ok \<and> hi_ok
         then Some (if 2 * (a mod b) < b \<or> (2 * (a mod b) = b \<and> even lo) then lo else hi)
         else if lo_ok then Some lo
         else if hi_ok then Some hi
         else None)"

fun shortest_digits :: "int \<Rightarrow> int \<Rightarrow> int \<Rightarrow> int list \<Rightarrow> (int \<times> int)" where
  "shortest_digits n d e [] = (fst (times_pow10 n d (16 - e)) div snd (times_pow10 n d (16 - e)), 17)"
| "shortest_digits n d e (p # ps) =
     (case shortest_with n d e p of
        Some m \<Rightarrow> (m, p)
      | None \<Rightarrow> shortest_digits n d e ps)"

definition strip_zeros :: "string \<Rightarrow> string" where
  "strip_zeros s = rev (dropWhile (\<lambda>c. c = CHR ''0'') (rev s))"

definition exponent_text :: "int \<Rightarrow> string" where
  "exponent_text x =
     (let a = digits_of \<bar>x\<bar>
      in (if x < 0 then ''e-'' else ''e+'') @ (if length a < 2 then CHR ''0'' # a else a))"

definition repr_positive :: "int \<Rightarrow> int \<Rightarrow> string" where
  "repr_positive n d =
     (let e = floor_log10 n d;
          (m, p) = shortest_digits n d e [1, 2, 3, 4, 5, 6, 7, 8, 9, 10, 11, 12, 13, 14, 15, 16, 17];
          all_digits = digits_of m;
          decpt = e + 1 + (int (length all_digits) - p);
          ds = strip_zeros all_digits;
          k = int (length ds)
      in if decpt \<le> - 4 \<or> 16 < decpt
         then take 1 ds @ (if 1 < k then CHR ''.'' # drop 1 ds else []) @ exponent_text (decpt - 1)
         else if decpt \<le> 0 then ''0.'' @ replicate (nat (- decpt)) (CHR ''0'') @ ds
         else if k \<le> decpt then ds @ replicate (nat (decpt - k)) (CHR ''0'') @ ''.0''
         else take (nat decpt) ds @ CHR ''.'' # drop (nat decpt) ds)"

fun str_of_float :: "pyfloat \<Rightarrow> string" where
  "str_of_float PInf = ''inf''"
| "str_of_float NInf = ''-inf''"
| "str_of_float NaN = ''nan''"
| "str_of_float (Fin q) =
     (let (n, d) = quotient_of \<bar>q\<bar>
      in if q = 0 then ''0.0''
         else (if q < 0 then ''-'' else []) @ repr_positive n d)"

fun py_str :: "cell \<Rightarrow> string" where
  "py_str VNone = ''None''"
| "py_str (VBool b) = (if b then ''True'' else ''False'')"
| "py_str (VInt n) = str_of_int n"
| "py_str (VFloat f) = str_of_float f"
| "py_str (VStr s) = s"

subsection \<open>\<^verbatim>\<open>normalize_text\<close> (\<^verbatim>\<open>01_audit_workbook.py\<close>)\<close>

definition normalize_text :: "cell \<Rightarrow> string" where
  "normalize_text x = (if is_nan_cell x then '''' else strip (py_str x))"

section \<open>Header detection (\<^verbatim>\<open>01_audit_workbook.py\<close>)\<close>

text \<open>
  A worksheet read with \<^verbatim>\<open>header=None\<close> is a grid: the list of its rows, each the
  list of its cells. \<^verbatim>\<open>raw_df.iloc[i].tolist()\<close> is the \<open>i\<close>-th row.
\<close>

type_synonym grid = "cell list list"

definition MONTH_NAMES :: "string list" where
  "MONTH_NAMES = [''JAN'', ''FEB'', ''MAR'', ''APR'', ''MAY'', ''JUN'',
                  ''JUL'', ''AUG'', ''SEP'', ''OCT'', ''NOV'', ''DEC'']"

definition row_score_for_header :: "string list \<Rightarrow> nat" where
  "row_score_for_header row_values =
     (let upper_vals = map upper row_values
      in (if list_ex (\<lambda>v. v = ''ACCOUNT'') upper_vals then 4 else 0)
         + (if list_ex (\<lambda>v. remove_char (CHR '' '') v \<in> set [''LINEITEM'', ''LINEITEMS'']
                            \<or> v = ''LINE ITEM'') upper_vals then 4 else 0)
         + length (filter (\<lambda>v. v \<in> set MONTH_NAMES) upper_vals) * 1
         + (if list_ex (\<lambda>v. v = ''TOTAL'') upper_vals then 2 else 0))"

text \<open>
  The loop of \<^verbatim>\<open>detect_header_row\<close> over \<^verbatim>\<open>range(n)\<close>: one candidate
  \<^verbatim>\<open>(i, score, row_vals[:15])\<close> for every row with a positive score, in scan order.
\<close>

type_synonym candidate = "nat \<times> nat \<times> string list"

definition scan_row :: "grid \<Rightarrow> nat \<Rightarrow> candidate list" where
  "scan_row raw_df i =
     (let row_vals = map normalize_text (raw_df ! i);
          score = row_score_for_header row_vals
      in if 0 < score then [(i, score, take 15 row_vals)] else [])"

definition scan_scores :: "grid \<Rightarrow> int \<Rightarrow> candidate list" where
  "scan_scores raw_df search_rows =
     (let n = min search_rows (int (length raw_df))
      in concat (map (scan_row raw_df) [0 ..< nat n]))"

text \<open>
  \<^verbatim>\<open>sorted(scores, key=lambda t: t[1], reverse=True)\<close>: Python's sort is stable, also
  with \<^verbatim>\<open>reverse=True\<close>, so candidates of equal score keep their scan order. That is
  the stable sort by ascending negated score.
\<close>

definition sorted_by_score_desc :: "candidate list \<Rightarrow> candidate list" where
  "sorted_by_score_desc scores = sort_key (\<lambda>t. - int (fst (snd t))) scores"

record header_debug =
  candidates_top10 :: "candidate list"
  best_row_index :: "nat option"
  best_score :: "nat option"

definition detect_header_row :: "grid \<Rightarrow> int \<Rightarrow> nat option \<times> header_debug" where
  "detect_header_row raw_df search_rows =
     (let scores_sorted = sorted_by_score_desc (scan_scores raw_df search_rows);
          best = (case scores_sorted of [] \<Rightarrow> None | t # _ \<Rightarrow> Some (fst t))
      in (best,
          \<lparr>candidates_top10 = take 10 scores_sorted,
           best_row_index = best,
           best_score = (case scores_sorted of [] \<Rightarrow> None | t # _ \<Rightarrow> Some (fst (snd t)))\<rparr>))"

text \<open>The score that the scan gives to row \<open>i\<close> of the grid.\<close>

definition header_score :: "grid \<Rightarrow> nat \<Rightarrow> nat" where
  "header_score raw_df i = row_score_for_header (map normalize_text (raw_df ! i))"

section \<open>Sheet selection (\<^verbatim>\<open>02_understand_pnl_sheets.py\<close>)\<close>

text \<open>
  \<^verbatim>\<open>pat = re.compile(r"^(Actual|Budget)\s+P&L\s+(\d{4})$", re.IGNORECASE)\<close> and
  \<^verbatim>\<open>pat.match(t)\<close>. Every piece of the pattern is followed by a character of another
  class, so the match is found without backtracking: six letters, a run of whitespace,
  three characters, a run of whitespace, four digits. \<^verbatim>\<open>$\<close> matches at the end of
  the text and also before a line feed that ends the text. The result is the pair of
  the two groups.
\<close>

definition match_pnl :: "string \<Rightarrow> (string \<times> string) option" where
  "match_pnl t =
     (let g1 = take 6 t; r1 = drop 6 t; r2 = dropWhile is_space r1;
          r3 = drop 3 r2; r4 = dropWhile is_space r3;
          g2 = take 4 r4; r5 = drop 4 r4
      in if (lower g1 = ''actual'' \<or> lower g1 = ''budget'')
            \<and> r2 \<noteq> r1
            \<and> lower (take 3 r2) = ''p&l''
            \<and> r4 \<noteq> r3
            \<and> length g2 = 4 \<and> list_all is_digit g2
            \<and> (r5 = [] \<or> r5 = [CHR 0x0A])
         then Some (g1, g2) else None)"

text \<open>
  \<^verbatim>\<open>str.title\<close>: a letter that follows a letter becomes lower case, any other letter
  upper case.
\<close>

definition is_letter :: "char \<Rightarrow> bool" where
  "is_letter c \<longleftrightarrow> c \<in> set lower_letters \<or> c \<in> set upper_letters"

fun title_from :: "bool \<Rightarrow> string \<Rightarrow> string" where
  "title_from after_letter [] = []"
| "title_from after_letter (c # cs) =
     (if after_letter then lower_char c else upper_char c) # title_from (is_letter c) cs"

definition title :: "string \<Rightarrow> string" where
  "title s = title_from False s"

text \<open>
  \<^verbatim>\<open>detect_pnl_sheets\<close>, from the list \<^verbatim>\<open>xls.sheet_names\<close> on: the loop appends
  \<^verbatim>\<open>(s, scenario, year)\<close> for every name whose stripped form matches.
\<close>

fun detect_pnl_sheets :: "string list \<Rightarrow> (string \<times> string \<times> int) list" where
  "detect_pnl_sheets [] = []"
| "detect_pnl_sheets (s # names) =
     (case match_pnl (strip s) of
        None \<Rightarrow> detect_pnl_sheets names
      | Some (g1, g2) \<Rightarrow> (s, title g1, digits_val g2) # detect_pnl_sheets names)"

text \<open>
  The shape of the claim read to the letter: the scenario word in any case, then the
  text \<^verbatim>\<open> P&L \<close> with its two single spaces, then four digits.
\<close>

definition literal_pnl_shape :: "string \<Rightarrow> bool" where
  "literal_pnl_shape t \<longleftrightarrow>
     (lower (take 6 t) = ''actual'' \<or> lower (take 6 t) = ''budget'')
     \<and> take 5 (drop 6 t) = '' P&L ''
     \<and> length (drop 11 t) = 4 \<and> list_all is_digit (drop 11 t)"

section \<open>Table extraction (\<^verbatim>\<open>01_audit_workbook.py\<close>)\<close>

text \<open>
  A pandas \<^verbatim>\<open>DataFrame\<close> with text labels is modelled by the list of its column
  labels and the list of its rows, each row holding one cell per column. The row index
  (the labels of the rows) is not part of it: no function of this script reads it.
\<close>

record frame =
  columns :: "string list"
  rows :: "cell list list"

text \<open>\<^verbatim>\<open>xs[start:]\<close>, the slice that \<^verbatim>\<open>df.iloc[start:]\<close> takes of the rows.\<close>

definition slice_from :: "'a list \<Rightarrow> int \<Rightarrow> 'a list" where
  "slice_from xs start =
     drop (nat (if start < 0 then max 0 (int (length xs) + start) else start)) xs"

text \<open>The cells of the \<open>j\<close>-th column.\<close>

definition column_at :: "frame \<Rightarrow> nat \<Rightarrow> cell list" where
  "column_at df j = map (\<lambda>r. r ! j) (rows df)"

text \<open>
  \<^verbatim>\<open>is_blank_col\<close>: \<^verbatim>\<open>col.isna().all() or (col.astype(str).str.strip() == "").all()\<close>.
  \<^verbatim>\<open>isna\<close> holds of \<^verbatim>\<open>None\<close> and of NaN. On a column of objects \<^verbatim>\<open>astype(str)\<close>
  applies \<^verbatim>\<open>str\<close> to every cell, the missing ones included, which become the texts
  \<^verbatim>\<open>None\<close> and \<^verbatim>\<open>nan\<close>.
\<close>

definition is_blank_col :: "cell list \<Rightarrow> bool" where
  "is_blank_col col \<longleftrightarrow>
     list_all is_nan_cell col \<or> list_all (\<lambda>x. strip (py_str x) = '''') col"

text \<open>\<^verbatim>\<open>df.dropna(how="all")\<close> keeps the rows that have a cell that is not missing.\<close>

definition dropna_all :: "frame \<Rightarrow> frame" where
  "dropna_all df = df\<lparr>rows := filter (\<lambda>r. list_ex (\<lambda>x. \<not> is_nan_cell x) r) (rows df)\<rparr>"

text \<open>\<^verbatim>\<open>df.drop(columns=labels)\<close>.\<close>

definition drop_columns :: "frame \<Rightarrow> string list \<Rightarrow> frame" where
  "drop_columns df labels =
     \<lparr>columns = filter (\<lambda>c. c \<notin> set labels) (columns df),
      rows = map (\<lambda>r. map snd (filter (\<lambda>p. fst p \<notin> set labels) (zip (columns df) r))) (rows df)\<rparr>"

text \<open>
  The removal of blank rows and blank columns, the second half of
  \<^verbatim>\<open>extract_table_using_header\<close>. The comprehension
  \<^verbatim>\<open>[c for c in df.columns if is_blank_col(df[c])]\<close> visits every label. For a label
  that occurs twice \<^verbatim>\<open>df[c]\<close> is a \<^verbatim>\<open>DataFrame\<close>, \<^verbatim>\<open>col.isna().all()\<close> is a
  \<^verbatim>\<open>Series\<close> of two or more values, and \<^verbatim>\<open>or\<close> asks for its truth value, which
  raises \<^verbatim>\<open>ValueError\<close>. With distinct labels \<^verbatim>\<open>df[c]\<close> is the column of \<open>c\<close>.
\<close>

definition blank_cols :: "frame \<Rightarrow> string list" where
  "blank_cols df =
     map fst (filter (\<lambda>p. is_blank_col (column_at df (snd p)))
                     (zip (columns df) [0 ..< length (columns df)]))"

definition drop_blank :: "frame \<Rightarrow> error + frame" where
  "drop_blank df0 =
     (let df = dropna_all df0 in
      if \<not> distinct (columns df) then Inl ValueError
      else if blank_cols df \<noteq> [] then Inr (drop_columns df (blank_cols df))
      else Inr df)"

text \<open>
  \<^verbatim>\<open>extract_table_using_header\<close>. \<^verbatim>\<open>df.iloc[header_row]\<close> raises \<^verbatim>\<open>IndexError\<close>
  for a position outside \<open>-n \<le> header_row < n\<close>; a negative position counts from the
  end.
\<close>

definition extract_table_using_header :: "grid \<Rightarrow> int \<Rightarrow> error + frame" where
  "extract_table_using_header raw_df header_row =
     (let n = int (length raw_df) in
      if header_row < - n \<or> n \<le> header_row then Inl IndexError
      else
        let header = raw_df ! nat (if header_row < 0 then n + header_row else header_row);
            df = \<lparr>columns = map normalize_text header,
                  rows = slice_from raw_df (header_row + 1)\<rparr>
        in drop_blank df)"

text \<open>
  The notion of blank that the claims use: a cell is blank when it is missing or is a
  text of whitespace only.
\<close>

definition blank_cell :: "cell \<Rightarrow> bool" where
  "blank_cell x \<longleftrightarrow> is_nan_cell x \<or> (case x of VStr s \<Rightarrow> strip s = '''' | _ \<Rightarrow> False)"

text \<open>A frame with no row and no column.\<close>

definition empty_frame :: "frame \<Rightarrow> bool" where
  "empty_frame df \<longleftrightarrow> rows df = [] \<and> columns df = []"

section \<open>Row types (\<^verbatim>\<open>01_audit_workbook.py\<close>)\<close>

text \<open>
  \<^verbatim>\<open>df[c]\<close> as a \<^verbatim>\<open>Series\<close>: \<^verbatim>\<open>KeyError\<close> for a label that is not a column. A label
  that occurs more than once selects a \<^verbatim>\<open>DataFrame\<close>, on which the \<^verbatim>\<open>Series\<close>
  operations of the callers fail; the class of that exception depends on the operation,
  the model writes \<open>TypeError\<close> for it.
\<close>

definition get_column :: "frame \<Rightarrow> string \<Rightarrow> error + cell list" where
  "get_column df c =
     (case filter (\<lambda>p. fst p = c) (zip (columns df) [0 ..< length (columns df)]) of
        [] \<Rightarrow> Inl KeyError
      | [p] \<Rightarrow> Inr (column_at df (snd p))
      | _ \<Rightarrow> Inl TypeError)"

text \<open>\<^verbatim>\<open>re.fullmatch(r"\d{3,6}", x.strip())\<close>.\<close>

definition looks_like_account_code :: "string \<Rightarrow> bool" where
  "looks_like_account_code x =
     (let s = strip x in 3 \<le> length s \<and> length s \<le> 6 \<and> list_all is_digit s)"

text \<open>\<^verbatim>\<open>str.isupper\<close>: there is a cased character and no lower-case one.\<close>

definition isupper :: "string \<Rightarrow> bool" where
  "isupper s \<longleftrightarrow>
     list_ex (\<lambda>c. c \<in> set upper_letters) s \<and> list_all (\<lambda>c. c \<notin> set lower_letters) s"

text \<open>\<^verbatim>\<open>p in s\<close> for texts.\<close>

fun contains :: "string \<Rightarrow> string \<Rightarrow> bool" where
  "contains [] p \<longleftrightarrow> p = []"
| "contains (c # cs) p \<longleftrightarrow> startswith (c # cs) p \<or> contains cs p"

text \<open>
  \<^verbatim>\<open>line.str.contains(r"^Total|Gross Profit|EBITDA|Net Income", case=False, regex=True)\<close>:
  a search that ignores case; the first alternative is anchored at the start.
\<close>

definition contains_subtotal_word :: "string \<Rightarrow> bool" where
  "contains_subtotal_word s \<longleftrightarrow>
     startswith (lower s) ''total'' \<or> contains (lower s) ''gross profit''
     \<or> contains (lower s) ''ebitda'' \<or> contains (lower s) ''net income''"

record row_type_counts =
  rows_total :: nat
  rows_account :: nat
  rows_section_headers :: nat
  rows_subtotals :: nat
  rows_other_nonaccount :: nat

definition count_true :: "bool list \<Rightarrow> nat" where
  "count_true bs = length (filter (\<lambda>b. b) bs)"

definition detect_pnl_row_types :: "frame \<Rightarrow> string \<Rightarrow> string \<Rightarrow> error + row_type_counts" where
  "detect_pnl_row_types df account_col line_col =
     (case get_column df account_col of
        Inl e \<Rightarrow> Inl e
      | Inr acc_cells \<Rightarrow>
          (case get_column df line_col of
             Inl e \<Rightarrow> Inl e
           | Inr line_cells \<Rightarrow>
               (let acc = map (\<lambda>x. strip (py_str x)) acc_cells;
                    line = map (\<lambda>x. strip (py_str x)) line_cells;
                    is_account = map looks_like_account_code acc;
                    is_section = map (\<lambda>p. \<not> fst p \<and> isupper (snd p) \<and> snd p \<noteq> '''')
                                     (zip is_account line);
                    is_subtotal = map (\<lambda>p. \<not> fst p \<and> contains_subtotal_word (snd p))
                                      (zip is_account line)
                in Inr \<lparr>rows_total = length (rows df),
                        rows_account = count_true is_account,
                        rows_section_headers = count_true is_section,
                        rows_subtotals = count_true is_subtotal,
                        rows_other_nonaccount = count_true (map (\<lambda>b. \<not> b) is_account)\<rparr>)))"

section \<open>Unpivoting (\<^verbatim>\<open>02_understand_pnl_sheets.py\<close>)\<close>

definition MONTHS :: "string list" where
  "MONTHS = [''Jan'', ''Feb'', ''Mar'', ''Apr'', ''May'', ''Jun'',
             ''Jul'', ''Aug'', ''Sep'', ''Oct'', ''Nov'', ''Dec'']"

text \<open>\<^verbatim>\<open>MONTH_TO_NUM = {m: i+1 for i, m in enumerate(MONTHS)}\<close>.\<close>

definition MONTH_TO_NUM :: "string \<Rightarrow> nat option" where
  "MONTH_TO_NUM = map_of (zip MONTHS [1 ..< 13])"

text \<open>
  \<^verbatim>\<open>infer_column_names\<close>, the labels that \<^verbatim>\<open>clean_wide_pnl\<close> gives to the columns of
  a sheet; it then adds the columns \<^verbatim>\<open>IsAccountRow\<close>, \<^verbatim>\<open>Scenario\<close> and \<^verbatim>\<open>Year\<close>.
\<close>

definition infer_column_names :: "nat \<Rightarrow> string list" where
  "infer_column_names ncols =
     (if ncols = 15 then [''Account'', ''Line Item''] @ MONTHS @ [''Total'']
      else if ncols = 14 then [''Account'', ''Line Item''] @ MONTHS
      else [''Account'', ''Line Item'']
           @ map (\<lambda>i. ''Col'' @ str_of_int (int i + 1)) [2 ..< ncols])"

text \<open>
  The wide table is a frame together with the labels of its rows: the selection
  \<^verbatim>\<open>wide.loc[...]\<close> reads them when its key is not a boolean mask. The row labels
  are integers, as \<^verbatim>\<open>read_excel\<close> and \<^verbatim>\<open>iloc\<close> leave them.
\<close>

record wide_table =
  table :: frame
  row_labels :: "int list"

text \<open>
  One row of the long table. The columns \<^verbatim>\<open>MonthStartDate\<close> and \<^verbatim>\<open>MonthEndDate\<close>,
  which pandas computes from \<^verbatim>\<open>Year\<close> and \<^verbatim>\<open>MonthNumber\<close> with its calendar, are
  not part of the model.
\<close>

record long_row =
  Account :: cell
  Line_Item :: cell
  Scenario :: cell
  Year :: cell
  Month :: string
  Amount :: cell
  MonthNumber :: "nat option"
  Quarter :: string

text \<open>
  \<^verbatim>\<open>"Q" + str((MonthNumber - 1) // 3 + 1)\<close>; a month name outside the table would
  give a missing number, written \<^verbatim>\<open><NA>\<close>.
\<close>

definition quarter_label :: "nat option \<Rightarrow> string" where
  "quarter_label mn =
     (case mn of
        None \<Rightarrow> ''Q<NA>''
      | Some k \<Rightarrow> CHR ''Q'' # str_of_int ((int k - 1) div 3 + 1))"

text \<open>The result of \<^verbatim>\<open>wide_to_long_fact\<close>: the table it was given, or a long table.\<close>

datatype unpivoted = Unchanged wide_table | Long "long_row list"

text \<open>The positions of the columns that carry the label \<open>c\<close>.\<close>

definition positions_of :: "string \<Rightarrow> string list \<Rightarrow> nat list" where
  "positions_of c cs = map snd (filter (\<lambda>p. fst p = c) (zip cs [0 ..< length cs]))"

text \<open>
  \<^verbatim>\<open>wide.loc[key]\<close> for the column \<^verbatim>\<open>key = wide["IsAccountRow"]\<close>. A key of
  booleans is a mask: the rows at its \<^verbatim>\<open>True\<close> positions are selected. A key of
  booleans and missing cells, with at least one missing cell, raises \<^verbatim>\<open>ValueError\<close>.
  Any other key is a list of row labels: for each cell of the key in turn, the rows
  that carry that label are selected, and \<^verbatim>\<open>KeyError\<close> is raised when no row carries
  it. An integer label is matched by the integer, by the float of the same value and,
  Python's \<^verbatim>\<open>True\<close> and \<^verbatim>\<open>False\<close> being equal to 1 and 0, by a boolean.
\<close>

definition is_bool_cell :: "cell \<Rightarrow> bool" where
  "is_bool_cell x = (case x of VBool b \<Rightarrow> True | _ \<Rightarrow> False)"

definition select_rows :: "cell list list \<Rightarrow> cell list \<Rightarrow> cell list list" where
  "select_rows rs flags = map fst (filter (\<lambda>p. snd p = VBool True) (zip rs flags))"

fun label_of :: "cell \<Rightarrow> int option" where
  "label_of (VInt k) = Some k"
| "label_of (VBool b) = Some (if b then 1 else 0)"
| "label_of (VFloat (Fin q)) = (if of_int \<lfloor>q\<rfloor> = q then Some \<lfloor>q\<rfloor> else None)"
| "label_of _ = None"

definition rows_with_label :: "(int \<times> cell list) list \<Rightarrow> int \<Rightarrow> cell list list" where
  "rows_with_label labelled k = map snd (filter (\<lambda>p. fst p = k) labelled)"

fun loc_labels :: "(int \<times> cell list) list \<Rightarrow> cell list \<Rightarrow> error + cell list list" where
  "loc_labels labelled [] = Inr []"
| "loc_labels labelled (x # xs) =
     (case label_of x of
        None \<Rightarrow> Inl KeyError
      | Some k \<Rightarrow>
          if rows_with_label labelled k = [] then Inl KeyError
          else (case loc_labels labelled xs of
                  Inl e \<Rightarrow> Inl e
                | Inr rs \<Rightarrow> Inr (rows_with_label labelled k @ rs)))"

definition loc_by_key :: "wide_table \<Rightarrow> cell list \<Rightarrow> error + cell list list" where
  "loc_by_key wide key =
     (if list_all is_bool_cell key then Inr (select_rows (rows (table wide)) key)
      else if list_all (\<lambda>x. is_bool_cell x \<or> is_nan_cell x) key then Inl ValueError
      else loc_labels (zip (row_labels wide) (rows (table wide))) key)"

text \<open>
  \<^verbatim>\<open>df.melt(id_vars=["Account", "Line Item", "Scenario", "Year"], value_vars=...,
  var_name="Month", value_name="Amount")\<close>. It raises \<^verbatim>\<open>ValueError\<close> when the frame
  already has a column named \<^verbatim>\<open>Amount\<close>, then \<^verbatim>\<open>KeyError\<close> when one of the
  \<^verbatim>\<open>id_vars\<close> or \<^verbatim>\<open>value_vars\<close> is not a column. An identifier label that names
  several columns makes it fail (the model writes \<open>AttributeError\<close>). Otherwise every
  column that carries one of the \<^verbatim>\<open>value_vars\<close> is a value column, in the order of
  \<^verbatim>\<open>value_vars\<close> and, for one label, of the columns; the result has, for every value
  column in turn, one long row for every row of the frame, in the order of the rows.
  The derived columns \<^verbatim>\<open>MonthNumber\<close> and \<^verbatim>\<open>Quarter\<close>, which
  \<^verbatim>\<open>wide_to_long_fact\<close> adds after the call, are filled in at once.
\<close>

definition id_vars :: "string list" where
  "id_vars = [''Account'', ''Line Item'', ''Scenario'', ''Year'']"

definition melt_row ::
    "string \<Rightarrow> (cell \<times> cell \<times> cell \<times> cell) \<times> cell \<Rightarrow> long_row" where
  "melt_row m p =
     \<lparr>Account = fst (fst p), Line_Item = fst (snd (fst p)),
      Scenario = fst (snd (snd (fst p))), Year = snd (snd (snd (fst p))),
      Month = m, Amount = snd p,
      MonthNumber = MONTH_TO_NUM m, Quarter = quarter_label (MONTH_TO_NUM m)\<rparr>"

definition column_of :: "frame \<Rightarrow> string \<Rightarrow> cell list" where
  "column_of df c = column_at df (hd (positions_of c (columns df)))"

definition melt :: "frame \<Rightarrow> string list \<Rightarrow> error + long_row list" where
  "melt df value_vars =
     (if ''Amount'' \<in> set (columns df) then Inl ValueError
      else if \<not> list_all (\<lambda>c. c \<in> set (columns df)) (id_vars @ value_vars) then Inl KeyError
      else if \<not> list_all (\<lambda>c. length (positions_of c (columns df)) = 1) id_vars
      then Inl AttributeError
      else
        let ids = zip (column_of df ''Account'')
                    (zip (column_of df ''Line Item'')
                      (zip (column_of df ''Scenario'') (column_of df ''Year'')));
            value_positions = concat (map (\<lambda>m. positions_of m (columns df)) value_vars)
        in Inr (concat (map (\<lambda>j. map (melt_row (columns df ! j)) (zip ids (column_at df j)))
                            value_positions)))"

text \<open>
  \<^verbatim>\<open>wide_to_long_fact\<close>. \<^verbatim>\<open>wide.empty\<close> holds when the table has no row or no
  column. \<^verbatim>\<open>wide["IsAccountRow"]\<close> raises \<^verbatim>\<open>KeyError\<close> when there is no such
  column; when several columns carry the label it is a \<^verbatim>\<open>DataFrame\<close>, which
  \<^verbatim>\<open>.loc\<close> refuses with \<^verbatim>\<open>ValueError\<close>.
\<close>

definition wide_to_long_fact :: "wide_table \<Rightarrow> error + unpivoted" where
  "wide_to_long_fact wide =
     (if rows (table wide) = [] \<or> columns (table wide) = [] then Inr (Unchanged wide)
      else
        (case positions_of ''IsAccountRow'' (columns (table wide)) of
           [] \<Rightarrow> Inl KeyError
         | [j] \<Rightarrow>
             (case loc_by_key wide (column_at (table wide) j) of
                Inl e \<Rightarrow> Inl e
              | Inr selected \<Rightarrow>
                  let wide_acc = (table wide)\<lparr>rows := selected\<rparr>;
                      month_cols = filter (\<lambda>m. m \<in> set (columns wide_acc)) MONTHS
                  in (case melt wide_acc month_cols of
                        Inl e \<Rightarrow> Inl e
                      | Inr long \<Rightarrow> Inr (Long long)))
         | _ \<Rightarrow> Inl ValueError))"

text \<open>
  What the claim about unpivoting speaks of: the cell of a row under a label, the rows
  classified as account rows, the month columns present, and the rows of a result.
\<close>

definition cell_at :: "frame \<Rightarrow> cell list \<Rightarrow> string \<Rightarrow> cell" where
  "cell_at df r c = r ! (length (takeWhile (\<lambda>l. l \<noteq> c) (columns df)))"




definition long_rows :: "unpivoted \<Rightarrow> long_row list" where
  "long_rows u = (case u of Unchanged w \<Rightarrow> [] | Long long \<Rightarrow> long)"



section \<open>Properties of \<^verbatim>\<open>parse_messy_number\<close>\<close>

subsection \<open>Conversion of integers\<close>

lemma bit_length_0: "bit_length 0 = 0"
  by (simp add: bit_length.simps)

lemma bit_length_1: "bit_length 1 = 1"
  by (simp add: bit_length.simps)

lemma bit_length_numeral: "bit_length (numeral k) = 1 + bit_length (numeral k div 2)"
  by (subst bit_length.simps) simp

lemma bit_length_nonneg: "0 \<le> bit_length n"
  by (induction n rule: bit_length.induct) (subst bit_length.simps, simp)

lemma bit_length_bounds:
  "0 < n \<Longrightarrow> 2 ^ nat (bit_length n - 1) \<le> n \<and> n < 2 ^ nat (bit_length n)"
proof (induction n rule: bit_length.induct)
  case (1 n)
  show ?case
  proof (cases "n = 1")
    case True
    then show ?thesis by (simp add: bit_length_1)
  next
    case False
    with "1.prems" have h: "0 < n div 2" by simp
    have ih: "2 ^ nat (bit_length (n div 2) - 1) \<le> n div 2
        \<and> n div 2 < 2 ^ nat (bit_length (n div 2))"
      using "1.IH" "1.prems" h by simp
    have pos: "1 \<le> bit_length (n div 2)"
      using h bit_length_nonneg [of "n div 2 div 2"] by (subst bit_length.simps) simp
    have bl: "bit_length n = 1 + bit_length (n div 2)"
      using "1.prems" by (subst bit_length.simps) simp
    have e1: "nat (bit_length n - 1) = Suc (nat (bit_length (n div 2) - 1))"
      using bl pos by simp
    have e2: "nat (bit_length n) = Suc (nat (bit_length (n div 2)))"
      using bl pos by simp
    have d: "2 * (n div 2) \<le> n" "n < 2 * (n div 2) + 2" by simp_all
    show ?thesis using ih d unfolding e1 e2 by simp
  qed
qed

text \<open>An integer below \<open>2\<^sup>5\<^sup>3\<close> is a double: the conversion is exact.\<close>

lemma round_double_exact:
  assumes "0 < n" "n < 2 ^ 53"
  shows "round_double n 1 = Some (of_int n)"
proof -
  define k where "k = bit_length n - bit_length 1"
  have bn: "2 ^ nat (bit_length n - 1) \<le> n" "n < 2 ^ nat (bit_length n)"
    using bit_length_bounds [OF assms(1)] by simp_all
  have kk: "k = bit_length n - 1" by (simp add: k_def bit_length_1)
  have k0: "0 \<le> k"
  proof (rule ccontr)
    assume "\<not> 0 \<le> k"
    then have "bit_length n \<le> 0" using kk by simp
    then have "nat (bit_length n) = 0" by simp
    with bn(2) assms(1) show False by simp
  qed
  have k52: "k \<le> 52"
  proof (rule ccontr)
    assume "\<not> k \<le> 52"
    then have "53 \<le> nat k" using k0 by simp
    then have "(2::int) ^ 53 \<le> 2 ^ nat k" by (intro power_increasing) simp_all
    with bn(1) kk assms(2) show False by simp
  qed
  have e: "(if n * 2 ^ nat (- k) < 1 * 2 ^ nat k then k - 1 else k) = k"
    using bn(1) kk k0 by simp
  have p: "max (k - 52) (- 1074) = k - 52" using k0 by simp
  have np: "nat (k - 52) = 0" using k52 by simp
  have m: "round_half_even (n * 2 ^ nat (- (k - 52))) (1 * 2 ^ nat (k - 52))
      = n * 2 ^ nat (52 - k)"
    by (simp add: round_half_even_def np)
  have v: "of_int (n * 2 ^ nat (52 - k)) * pow2 (k - 52) = (of_int n :: rat)"
  proof (cases "k = 52")
    case True
    then show ?thesis by (simp add: pow2_def)
  next
    case False
    with k52 have "k - 52 < 0" by simp
    then show ?thesis by (simp add: pow2_def)
  qed
  have lt: "((2::rat) ^ 1024 \<le> of_int n) = False"
  proof -
    have "(of_int n :: rat) < of_int (2 ^ 53)" using assms(2) by (simp only: of_int_less_iff)
    also have "\<dots> \<le> 2 ^ 1024" by simp
    finally show ?thesis by simp
  qed
  have n0: "(n = 0) = False" using assms(1) by simp
  show ?thesis
    unfolding round_double_def Let_def k_def [symmetric] e p
    by (simp only: m v lt n0 if_False)
qed

lemma float_of_int_exact: "\<bar>n\<bar> < 2 ^ 53 \<Longrightarrow> float_of_int n = Inr (Fin (of_int n))"
proof (cases "n = 0")
  case True
  then show ?thesis by (simp add: float_of_int_def round_double_def)
next
  case False
  assume "\<bar>n\<bar> < 2 ^ 53"
  with False have "round_double \<bar>n\<bar> 1 = Some (of_int \<bar>n\<bar>)"
    by (intro round_double_exact) simp_all
  then show ?thesis by (simp add: float_of_int_def)
qed

lemma round_half_even_bounds:
  assumes "0 < d"
  shows "round_half_even n d \<le> n div d + 1"
    and "2 * (n mod d) < d \<Longrightarrow> round_half_even n d = n div d"
  by (simp_all add: round_half_even_def Let_def)

text \<open>
  An integer below \<open>2\<^sup>1\<^sup>0\<^sup>2\<^sup>4 - 2\<^sup>9\<^sup>7\<^sup>0\<close>, the midpoint between the largest double and
  \<open>2\<^sup>1\<^sup>0\<^sup>2\<^sup>4\<close>, rounds to a finite double.
\<close>

lemma round_double_int_finite:
  assumes pos: "0 < n" and small: "n < 2 ^ 1024 - 2 ^ 970"
  shows "\<exists>q. round_double n 1 = Some q"
proof -
  define k where "k = bit_length n - 1"
  have bl: "bit_length n = k + 1" by (simp add: k_def)
  have bn: "2 ^ nat k \<le> n" "n < 2 ^ nat (k + 1)"
    using bit_length_bounds [OF pos] by (simp_all add: bl)
  have k0: "0 \<le> k"
  proof (rule ccontr)
    assume "\<not> 0 \<le> k"
    then have "nat (k + 1) = 0" by simp
    with bn(2) pos show False by simp
  qed
  show ?thesis
  proof (cases "k \<le> 52")
    case True
    then have "nat (k + 1) \<le> 53" using k0 by simp
    then have "(2::int) ^ nat (k + 1) \<le> 2 ^ 53" by (intro power_increasing) simp_all
    with bn(2) have "n < 2 ^ 53" by simp
    from round_double_exact [OF pos this] show ?thesis by blast
  next
    case False
    define j where "j = nat (k - 52)"
    have j1: "1 \<le> j" and kj: "k - 52 = int j" and kj1: "nat (k + 1) = 53 + j" and kj0: "nat k = 52 + j"
      using False by (simp_all add: j_def)
    define d :: int where "d = 2 ^ j"
    have dpos: "0 < d" by (simp add: d_def)
    define m where "m = round_half_even n d"
    have n_lt: "n < 2 ^ 53 * d" using bn(2) by (simp add: kj1 d_def power_add)
    have q_lt: "n div d < 2 ^ 53"
    proof (rule ccontr)
      assume "\<not> n div d < 2 ^ 53"
      then have "2 ^ 53 \<le> n div d" by simp
      then have "2 ^ 53 * d \<le> (n div d) * d" using dpos by (intro mult_right_mono) simp_all
      moreover have "n = (n div d) * d + n mod d" by simp
      moreover have "0 \<le> n mod d" using dpos by simp
      ultimately show False using n_lt by linarith
    qed
    have m_le: "m \<le> n div d + 1" unfolding m_def by (rule round_half_even_bounds(1) [OF dpos])
    have big: "(2::int) ^ 1024 = 2 ^ 53 * 2 ^ 971" by (simp add: power_add [symmetric])
    have j971: "j \<le> 971"
    proof (rule ccontr)
      assume "\<not> j \<le> 971"
      then have "1024 \<le> nat k" by (simp add: kj0)
      then have "(2::int) ^ 1024 \<le> 2 ^ nat k" by (intro power_increasing) simp_all
      with bn(1) have "(2::int) ^ 1024 \<le> n" by simp
      moreover have "(0::int) < 2 ^ 970" by simp
      ultimately show False using small by linarith
    qed
    have md: "m * d < 2 ^ 1024"
    proof (cases "j \<le> 970")
      case True
      have "m \<le> 2 ^ 53" using m_le q_lt by simp
      then have "m * d \<le> 2 ^ 53 * d" using dpos by (intro mult_right_mono) simp_all
      also have "\<dots> = 2 ^ (53 + j)" by (simp add: d_def power_add)
      also have "\<dots> \<le> 2 ^ 1023" using True by (intro power_increasing) simp_all
      also have "\<dots> < (2::int) ^ 1024" by simp
      finally show ?thesis .
    next
      case False
      with j971 have j: "j = 971" by simp
      define D :: int where "D = 2 ^ 970"
      have Dpos: "0 < D" by (simp add: D_def)
      have "(2::int) ^ 971 = 2 * 2 ^ 970" by (simp add: power_Suc [symmetric])
      then have d2: "d = 2 * D" by (simp only: d_def j D_def)
      have big': "(2::int) ^ 1024 = 2 ^ 53 * d" using big by (simp only: d_def j)
      have small': "n < 2 ^ 53 * d - D" using small unfolding big' D_def .
      have "m \<le> 2 ^ 53 - 1"
      proof (cases "n div d \<le> 2 ^ 53 - 2")
        case True
        with m_le show ?thesis by simp
      next
        case False
        with q_lt have q: "n div d = 2 ^ 53 - 1" by simp
        have "n = (n div d) * d + n mod d" by simp
        then have "n mod d = n - (2 ^ 53 - 1) * d" unfolding q by linarith
        also have "\<dots> = n - 2 ^ 53 * d + d" by (simp add: algebra_simps)
        also have "\<dots> < D" using small' d2 by linarith
        finally have "2 * (n mod d) < d" using d2 by linarith
        then have "m = n div d" unfolding m_def by (rule round_half_even_bounds(2) [OF dpos])
        with q show ?thesis by simp
      qed
      then have "m * d \<le> (2 ^ 53 - 1) * d" using dpos by (intro mult_right_mono) simp_all
      also have "\<dots> < 2 ^ 53 * d" using dpos by (simp add: algebra_simps)
      finally show ?thesis unfolding big' .
    qed
    have e: "(if n * 2 ^ nat (- k) < 1 * 2 ^ nat k then k - 1 else k) = k"
      using bn(1) k0 by simp
    have p: "max (k - 52) (- 1074) = k - 52" using k0 by simp
    have mm: "round_half_even (n * 2 ^ nat (- (k - 52))) (1 * 2 ^ nat (k - 52)) = m"
      using False by (simp add: m_def d_def j_def)
    have v: "of_int m * pow2 (k - 52) = (of_int (m * d) :: rat)"
      using False by (simp add: pow2_def d_def j_def)
    have lt: "((2::rat) ^ 1024 \<le> of_int (m * d)) = False"
    proof -
      have "(of_int (m * d) :: rat) < of_int (2 ^ 1024)" using md by (simp only: of_int_less_iff)
      then show ?thesis by simp
    qed
    have n0: "(n = 0) = False" using pos by simp
    have "round_double n 1 = Some (of_int (m * d))"
      unfolding round_double_def Let_def bl bit_length_1 e p
      by (simp only: add_diff_cancel_right' e p mm v lt n0 if_False)
    then show ?thesis by blast
  qed
qed

lemma float_of_int_finite:
  "\<bar>n\<bar> < 2 ^ 1024 - 2 ^ 970 \<Longrightarrow> \<exists>q. float_of_int n = Inr (Fin q)"
proof (cases "n = 0")
  case True
  then show ?thesis by (simp add: float_of_int_def round_double_def)
next
  case False
  assume "\<bar>n\<bar> < 2 ^ 1024 - 2 ^ 970"
  with False obtain q where "round_double \<bar>n\<bar> 1 = Some q"
    using round_double_int_finite [of "\<bar>n\<bar>"] by auto
  then show ?thesis by (simp add: float_of_int_def)
qed

subsection \<open>Evaluation on concrete texts\<close>

lemmas text_eval =
  parse_messy_text_def without_parens_commas_def strip_def is_space_def startswith_def
  endswith_def remove_char_def float_of_str_def split_sign_def lower_def lower_char_def
  upper_letters_def lower_letters_def parse_decimal_def parse_exponent_def is_digit_def
  digits_val_def digit_val_def signed_float_def round_double_def round_half_even_def
  pow2_def bit_length_0 bit_length_1 bit_length_numeral Let_def

lemma parse_thousands: "parse_messy_text ''12,345'' = Some (Fin 12345)"
  by (simp add: text_eval)

lemma parse_parenthesised: "parse_messy_text ''(2,119,020)'' = Some (Fin (- 2119020))"
  by (simp add: text_eval)

lemma parse_dash: "parse_messy_text ''-'' = None"
  by (simp add: text_eval)

lemma parse_empty_text: "parse_messy_text '''' = None"
  by (simp add: text_eval)

lemma parse_open_paren: "parse_messy_text ''(1,234'' = Some (Fin 1234)"
  by (simp add: text_eval)

lemma parse_inner_paren: "parse_messy_text ''(1(2)'' = Some (Fin (- 12))"
  by (simp add: text_eval)

lemma parse_inf: "parse_messy_text ''inf'' = Some PInf"
  by (simp add: text_eval)

lemma parse_letters: "parse_messy_text ''n/a'' = None"
  by (simp add: text_eval)

lemma set_strip: "set (strip s) \<subseteq> set s"
  by (auto simp: strip_def dest!: set_dropWhileD)

subsection \<open>The claims about \<^verbatim>\<open>parse_messy_number\<close>\<close>

text \<open>
  Claim C5. \<^verbatim>\<open>parse_messy_number\<close> maps the text \<^verbatim>\<open>"12,345"\<close> to \<^verbatim>\<open>12345.0\<close>, the
  text \<^verbatim>\<open>"(2,119,020)"\<close> to \<^verbatim>\<open>-2119020.0\<close>, the texts \<^verbatim>\<open>"-"\<close> and \<^verbatim>\<open>""\<close> to
  \<^verbatim>\<open>None\<close>, and the integer \<^verbatim>\<open>42\<close> to \<^verbatim>\<open>42.0\<close>.
\<close>

theorem parse_messy_number_examples:
  "parse_messy_number (VStr ''12,345'') = Inr (Some (Fin 12345))
   \<and> parse_messy_number (VStr ''(2,119,020)'') = Inr (Some (Fin (- 2119020)))
   \<and> parse_messy_number (VStr ''-'') = Inr None
   \<and> parse_messy_number (VStr '''') = Inr None
   \<and> parse_messy_number (VInt 42) = Inr (Some (Fin 42))"
  by (simp add: parse_thousands parse_parenthesised parse_dash parse_empty_text
      float_of_int_exact)

text \<open>
  Claim C6, as stated: for every cell value the function returns a finite number or
  \<^verbatim>\<open>None\<close>. The text \<^verbatim>\<open>"inf"\<close> is a cell for which it returns neither: \<^verbatim>\<open>float("inf")\<close>
  succeeds and the infinity is returned.
\<close>

theorem parse_messy_number_inf_not_finite:
  "parse_messy_number (VStr ''inf'') = Inr (Some PInf) \<and> \<not> is_finite PInf"
  by (simp add: parse_inf is_finite_def)

text \<open>
  Claim C6, amended. For every cell value that is not an integer too large for a
  double (of magnitude \<open>2\<^sup>1\<^sup>0\<^sup>2\<^sup>4 - 2\<^sup>9\<^sup>7\<^sup>0\<close> or more), \<^verbatim>\<open>parse_messy_number\<close> returns
  without raising, either \<^verbatim>\<open>None\<close> or a float; for an integer cell the float is finite. For a text it returns \<^verbatim>\<open>None\<close> exactly when the stripped text is empty
  or \<^verbatim>\<open>"-"\<close>, or when \<^verbatim>\<open>float\<close> rejects what is left after the parentheses and
  commas are removed: a text that cannot be parsed gives \<^verbatim>\<open>None\<close>, never an exception.
\<close>

theorem parse_messy_number_total:
  assumes "\<forall>n. x = VInt n \<longrightarrow> \<bar>n\<bar> < 2 ^ 1024 - 2 ^ 970"
  shows "(\<exists>r. parse_messy_number x = Inr r)
    \<and> (\<forall>n. x = VInt n \<longrightarrow> (\<exists>q. parse_messy_number x = Inr (Some (Fin q))))
    \<and> (\<forall>s. x = VStr s \<longrightarrow>
          (parse_messy_number x = Inr None \<longleftrightarrow>
             strip s = '''' \<or> strip s = ''-''
             \<or> float_of_str (without_parens_commas (strip s)) = None))"
proof (cases x)
  case (VInt n)
  with assms have "\<bar>n\<bar> < 2 ^ 1024 - 2 ^ 970" by blast
  from float_of_int_finite [OF this] obtain q where "float_of_int n = Inr (Fin q)" by blast
  then show ?thesis using VInt by simp
next
  case (VStr s)
  then show ?thesis
    by (auto simp: parse_messy_text_def Let_def split: option.splits)
qed simp_all

theorem parse_messy_number_total_witness:
  "\<bar>42::int\<bar> < 2 ^ 1024 - 2 ^ 970
   \<and> (\<exists>q. parse_messy_number (VInt 42) = Inr (Some (Fin q)))
   \<and> parse_messy_number (VStr ''n/a'') = Inr None
   \<and> float_of_str (without_parens_commas (strip ''n/a'')) = None"
proof -
  have i: "\<bar>42::int\<bar> < 2 ^ 1024 - 2 ^ 970" by simp
  then have a: "\<forall>n. VInt 42 = VInt n \<longrightarrow> \<bar>n\<bar> < 2 ^ 1024 - 2 ^ 970" by simp
  have b: "\<forall>n. VStr ''n/a'' = VInt n \<longrightarrow> \<bar>n\<bar> < 2 ^ 1024 - 2 ^ 970" by blast
  have c: "strip ''n/a'' \<noteq> '''' \<and> strip ''n/a'' \<noteq> ''-''"
    by (simp add: strip_def is_space_def)
  have "\<exists>q. parse_messy_number (VInt 42) = Inr (Some (Fin q))"
    using parse_messy_number_total [OF a] by blast
  moreover have "parse_messy_number (VStr ''n/a'') = Inr None
      \<and> float_of_str (without_parens_commas (strip ''n/a'')) = None"
    using parse_messy_number_total [OF b] c parse_letters by auto
  ultimately show ?thesis using i by blast
qed

text \<open>
  Claim C10, as stated: a text with unbalanced parentheses is returned without
  negation. The text \<^verbatim>\<open>"(1(2)"\<close> has an opening parenthesis after its first character;
  it starts with \<^verbatim>\<open>"("\<close> and ends with \<^verbatim>\<open>")"\<close>, so the function negates: the result
  is \<^verbatim>\<open>-12.0\<close>.
\<close>

theorem parse_messy_number_unbalanced_negated:
  "unbalanced_parens ''(1(2)'' \<and> parse_messy_number (VStr ''(1(2)'') = Inr (Some (Fin (- 12)))"
  by (simp add: parse_inner_paren unbalanced_parens_def)

text \<open>
  Claim C10, amended. For every text whose stripped form is neither empty nor \<^verbatim>\<open>"-"\<close>,
  all parentheses are removed before the conversion. When the stripped text does not
  both start with \<^verbatim>\<open>"("\<close> and end with \<^verbatim>\<open>")"\<close>, the parsed value is returned without
  negation (\<^verbatim>\<open>"(1,234"\<close> gives \<^verbatim>\<open>1234.0\<close>); when it does, the parsed value is negated,
  whatever parentheses stand in between.
\<close>

theorem parse_messy_number_parens:
  assumes "strip x \<noteq> ''''" and "strip x \<noteq> ''-''"
  shows "CHR ''('' \<notin> set (without_parens_commas (strip x))
    \<and> CHR '')'' \<notin> set (without_parens_commas (strip x))
    \<and> parse_messy_number (VStr x) =
        Inr (if startswith (strip x) ''('' \<and> endswith (strip x) '')''
             then map_option neg_float (float_of_str (without_parens_commas (strip x)))
             else float_of_str (without_parens_commas (strip x)))"
proof -
  have "set (without_parens_commas (strip x))
      \<subseteq> set (remove_char (CHR '','') (remove_char (CHR '')'') (remove_char (CHR ''('') (strip x))))"
    unfolding without_parens_commas_def by (rule set_strip)
  then have "CHR ''('' \<notin> set (without_parens_commas (strip x))"
    and "CHR '')'' \<notin> set (without_parens_commas (strip x))"
    by (auto simp: remove_char_def)
  moreover have "parse_messy_number (VStr x) =
        Inr (if startswith (strip x) ''('' \<and> endswith (strip x) '')''
             then map_option neg_float (float_of_str (without_parens_commas (strip x)))
             else float_of_str (without_parens_commas (strip x)))"
    using assms by (simp add: parse_messy_text_def Let_def split: option.splits)
  ultimately show ?thesis by simp
qed

theorem parse_messy_number_parens_witness:
  "strip ''(1,234'' \<noteq> '''' \<and> strip ''(1,234'' \<noteq> ''-''
   \<and> \<not> endswith (strip ''(1,234'') '')''
   \<and> parse_messy_number (VStr ''(1,234'') = Inr (float_of_str ''1234'')
   \<and> float_of_str ''1234'' = Some (Fin 1234)"
proof -
  have s: "strip ''(1,234'' = ''(1,234''" by (simp add: strip_def is_space_def)
  have a: "strip ''(1,234'' \<noteq> ''''" and b: "strip ''(1,234'' \<noteq> ''-''"
    by (simp_all add: s)
  have e: "\<not> endswith (strip ''(1,234'') '')''" by (simp add: s endswith_def)
  have w: "without_parens_commas (strip ''(1,234'') = ''1234''"
    by (simp add: s without_parens_commas_def remove_char_def strip_def is_space_def)
  have f: "float_of_str ''1234'' = Some (Fin 1234)" by (simp add: text_eval)
  show ?thesis
    using parse_messy_number_parens [OF a b] a b e w f by simp
qed


section \<open>Properties of \<^verbatim>\<open>detect_header_row\<close>\<close>

lemma hd_insort_key:
  "ys \<noteq> [] \<Longrightarrow> hd (insort_key f x ys) = (if f x \<le> f (hd ys) then x else hd ys)"
  by (cases ys) simp_all

lemma insort_key_nonempty: "insort_key f x ys \<noteq> []"
  by (cases ys) simp_all

lemma sort_key_nonempty: "xs \<noteq> [] \<Longrightarrow> sort_key f xs \<noteq> []"
  by (cases xs) (simp_all add: insort_key_nonempty)

text \<open>The head of a stable sort is the first element of least key.\<close>

lemma hd_sort_key_first_min:
  fixes f :: "'a \<Rightarrow> int"
  assumes "xs \<noteq> []"
  shows "\<exists>as bs. xs = as @ hd (sort_key f xs) # bs
           \<and> (\<forall>y\<in>set as. f (hd (sort_key f xs)) < f y)
           \<and> (\<forall>y\<in>set bs. f (hd (sort_key f xs)) \<le> f y)"
  using assms
proof (induction xs)
  case Nil
  then show ?case by simp
next
  case (Cons x xs)
  show ?case
  proof (cases "xs = []")
    case True
    then show ?thesis by (intro exI [of _ "[]"]) simp
  next
    case False
    define h where "h = hd (sort_key f xs)"
    from Cons.IH [OF False] obtain as bs where
      xs: "xs = as @ h # bs" and as: "\<forall>y\<in>set as. f h < f y" and bs: "\<forall>y\<in>set bs. f h \<le> f y"
      unfolding h_def by blast
    have hd: "hd (sort_key f (x # xs)) = (if f x \<le> f h then x else h)"
      using sort_key_nonempty [OF False, of f] by (simp add: hd_insort_key h_def)
    show ?thesis
    proof (cases "f x \<le> f h")
      case True
      have "\<forall>y\<in>set xs. f x \<le> f y"
      proof
        fix y assume "y \<in> set xs"
        then have "f h \<le> f y" using xs as bs by (subst (asm) xs) auto
        with True show "f x \<le> f y" by simp
      qed
      then have "x # xs = [] @ x # xs \<and> (\<forall>y\<in>set []. f x < f y) \<and> (\<forall>y\<in>set xs. f x \<le> f y)"
        by simp
      then show ?thesis unfolding hd using True by (simp only: if_True) blast
    next
      case False
      then have "x # xs = (x # as) @ h # bs \<and> (\<forall>y\<in>set (x # as). f h < f y)
          \<and> (\<forall>y\<in>set bs. f h \<le> f y)"
        using xs as bs by simp
      then show ?thesis unfolding hd using False by (simp only: if_False) blast
    qed
  qed
qed

lemma scan_row_fst: "map fst (scan_row raw i) = (if 0 < header_score raw i then [i] else [])"
  by (simp add: scan_row_def header_score_def Let_def)

lemma scan_scores_fst:
  "map fst (scan_scores raw sr)
     = filter (\<lambda>i. 0 < header_score raw i) [0 ..< nat (min sr (int (length raw)))]"
proof -
  have "map fst (concat (map (scan_row raw) is)) = filter (\<lambda>i. 0 < header_score raw i) is" for "is"
    by (induction "is") (simp_all add: scan_row_fst)
  then show ?thesis by (simp add: scan_scores_def Let_def)
qed

lemma scan_scores_snd:
  "t \<in> set (scan_scores raw sr) \<Longrightarrow> fst (snd t) = header_score raw (fst t)"
  by (auto simp: scan_scores_def scan_row_def header_score_def Let_def split: if_splits)

lemma sorted_scan_scores: "sorted (map fst (scan_scores raw sr))"
  unfolding scan_scores_fst by (rule sorted_wrt_filter) simp

lemma distinct_scan_scores: "distinct (map fst (scan_scores raw sr))"
  unfolding scan_scores_fst by simp

lemma detect_header_row_none:
  "fst (detect_header_row raw sr) = None \<longleftrightarrow> scan_scores raw sr = []"
proof -
  show ?thesis
  proof (cases "scan_scores raw sr = []")
    case True
    then show ?thesis
      by (simp add: detect_header_row_def sorted_by_score_desc_def)
  next
    case False
    then obtain t ts where "sort_key (\<lambda>t. - int (fst (snd t))) (scan_scores raw sr) = t # ts"
      using sort_key_nonempty [OF False, of "\<lambda>t. - int (fst (snd t))"]
      by (cases "sort_key (\<lambda>t. - int (fst (snd t))) (scan_scores raw sr)") auto
    with False show ?thesis
      by (simp add: detect_header_row_def sorted_by_score_desc_def Let_def)
  qed
qed

lemma detect_header_row_some:
  assumes "fst (detect_header_row raw sr) = Some b"
  shows "scan_scores raw sr \<noteq> []"
    and "b = fst (hd (sort_key (\<lambda>t. - int (fst (snd t))) (scan_scores raw sr)))"
  using assms detect_header_row_none [of raw sr]
  by (auto simp: detect_header_row_def sorted_by_score_desc_def Let_def split: list.splits)

text \<open>
  Claim C2. \<^verbatim>\<open>detect_header_row\<close> scans the first \<open>min search_rows (len raw_df)\<close>
  rows. It returns \<^verbatim>\<open>None\<close> exactly when none of them has a positive score, and never
  fails. When it returns a row index, that row is one of the scanned rows, its score is
  positive and is the greatest score of the scanned rows, and every earlier row has a
  strictly smaller score: among rows of equal greatest score the first one is returned.
\<close>

theorem detect_header_row_best:
  "(fst (detect_header_row raw sr) = None
      \<longleftrightarrow> (\<forall>i < nat (min sr (int (length raw))). header_score raw i = 0))
   \<and> (\<forall>b. fst (detect_header_row raw sr) = Some b \<longrightarrow>
         b < nat (min sr (int (length raw)))
         \<and> 0 < header_score raw b
         \<and> (\<forall>i < nat (min sr (int (length raw))). header_score raw i \<le> header_score raw b)
         \<and> (\<forall>i < b. header_score raw i < header_score raw b))"
proof -
  let ?n = "nat (min sr (int (length raw)))"
  let ?xs = "scan_scores raw sr"
  have mem: "i \<in> set (map fst ?xs) \<longleftrightarrow> i < ?n \<and> 0 < header_score raw i" for i
    unfolding scan_scores_fst by auto
  have none: "fst (detect_header_row raw sr) = None \<longleftrightarrow> (\<forall>i < ?n. header_score raw i = 0)"
  proof -
    have "?xs = [] \<longleftrightarrow> (\<forall>i. i \<notin> set (map fst ?xs))" by (cases ?xs) auto
    also have "\<dots> \<longleftrightarrow> (\<forall>i < ?n. header_score raw i = 0)"
      unfolding mem by auto
    finally show ?thesis by (simp only: detect_header_row_none)
  qed
  have some: "b < ?n \<and> 0 < header_score raw b
      \<and> (\<forall>i < ?n. header_score raw i \<le> header_score raw b)
      \<and> (\<forall>i < b. header_score raw i < header_score raw b)"
    if best: "fst (detect_header_row raw sr) = Some b" for b
  proof (intro conjI)
  let ?f = "\<lambda>t::candidate. - int (fst (snd t))"
  define h where "h = hd (sort_key ?f ?xs)"
  have ne: "?xs \<noteq> []" and b: "b = fst h"
    using detect_header_row_some [OF best] by (simp_all add: h_def)
  from hd_sort_key_first_min [OF ne, of ?f] obtain as bs where
    xs: "?xs = as @ h # bs" and as: "\<forall>y\<in>set as. ?f h < ?f y" and bs: "\<forall>y\<in>set bs. ?f h \<le> ?f y"
    unfolding h_def by blast
  have hin: "h \<in> set ?xs" by (subst xs) simp
  then have "b \<in> set (map fst ?xs)" using b by auto
  then have bn: "b < ?n" and bpos: "0 < header_score raw b" using mem by simp_all
  have hs: "fst (snd h) = header_score raw b"
    using scan_scores_snd [OF hin] b by simp
  have sc: "fst (snd y) = header_score raw (fst y)" if "y \<in> set ?xs" for y
    using scan_scores_snd [OF that] .
  have srt: "sorted (map fst (as @ h # bs))" and dst: "distinct (map fst (as @ h # bs))"
    using sorted_scan_scores [of raw sr] distinct_scan_scores [of raw sr] xs by simp_all
  show "b < ?n" by (rule bn)
  show "0 < header_score raw b" by (rule bpos)
  show "\<forall>i < ?n. header_score raw i \<le> header_score raw b"
  proof (intro allI impI)
    fix i assume "i < ?n"
    show "header_score raw i \<le> header_score raw b"
    proof (cases "0 < header_score raw i")
      case False
      then show ?thesis by simp
    next
      case True
      with \<open>i < ?n\<close> have "i \<in> set (map fst ?xs)" using mem by simp
      then obtain y where y: "y \<in> set ?xs" "fst y = i" by auto
      then have "?f h \<le> ?f y" using as bs by (subst (asm) xs) auto
      then show ?thesis using sc [OF y(1)] y(2) hs by simp
    qed
  qed
  show "\<forall>i < b. header_score raw i < header_score raw b"
  proof (intro allI impI)
    fix i assume ib: "i < b"
    show "header_score raw i < header_score raw b"
    proof (cases "0 < header_score raw i")
      case False
      then show ?thesis using bpos by simp
    next
      case True
      with ib bn have "i \<in> set (map fst ?xs)" using mem by simp
      then obtain y where y: "y \<in> set ?xs" "fst y = i" by auto
      have "y \<in> set as"
      proof -
        have "y \<in> set as \<or> y = h \<or> y \<in> set bs" using y(1) by (subst (asm) xs) auto
        moreover have "y \<noteq> h" using y(2) ib b by auto
        moreover have "y \<notin> set bs"
        proof
          assume "y \<in> set bs"
          then have "fst h \<le> fst y" using srt by (auto simp: sorted_append)
          with y(2) ib b show False by simp
        qed
        ultimately show ?thesis by blast
      qed
      then have "?f h < ?f y" using as by blast
      then show ?thesis using sc [OF y(1)] y(2) hs by simp
    qed
  qed
  qed
  show ?thesis using none some by blast
qed

lemma detect_header_row_tie:
  "fst (detect_header_row
          [[VStr ''Profit and Loss'', VNone],
           [VStr ''Jan'', VStr ''Total''],
           [VStr ''TOTAL'', VStr '' feb '']] 60) = Some 1"
  by code_simp

theorem detect_header_row_best_witness:
  "fst (detect_header_row
          [[VStr ''Profit and Loss'', VNone],
           [VStr ''Jan'', VStr ''Total''],
           [VStr ''TOTAL'', VStr '' feb '']] 60) = Some 1
   \<and> header_score [[VStr ''Profit and Loss'', VNone],
           [VStr ''Jan'', VStr ''Total''],
           [VStr ''TOTAL'', VStr '' feb '']] 0
       < header_score [[VStr ''Profit and Loss'', VNone],
           [VStr ''Jan'', VStr ''Total''],
           [VStr ''TOTAL'', VStr '' feb '']] 1
   \<and> header_score [[VStr ''Profit and Loss'', VNone],
           [VStr ''Jan'', VStr ''Total''],
           [VStr ''TOTAL'', VStr '' feb '']] 2
       \<le> header_score [[VStr ''Profit and Loss'', VNone],
           [VStr ''Jan'', VStr ''Total''],
           [VStr ''TOTAL'', VStr '' feb '']] 1"
  using detect_header_row_best
    [of "[[VStr ''Profit and Loss'', VNone],
           [VStr ''Jan'', VStr ''Total''],
           [VStr ''TOTAL'', VStr '' feb '']]" 60]
    detect_header_row_tie
  by simp

lemma detect_header_row_no_header:
  "fst (detect_header_row [[VStr ''Profit and Loss'', VNone], [VInt 3, VStr ''x'']] 60) = None"
  by code_simp

section \<open>Properties of \<^verbatim>\<open>detect_pnl_sheets\<close>\<close>

lemma lower_char_eq:
  "lower_char c =
    (if c = CHR ''A'' then CHR ''a'' else if c = CHR ''B'' then CHR ''b''
     else if c = CHR ''C'' then CHR ''c'' else if c = CHR ''D'' then CHR ''d''
     else if c = CHR ''E'' then CHR ''e'' else if c = CHR ''F'' then CHR ''f''
     else if c = CHR ''G'' then CHR ''g'' else if c = CHR ''H'' then CHR ''h''
     else if c = CHR ''I'' then CHR ''i'' else if c = CHR ''J'' then CHR ''j''
     else if c = CHR ''K'' then CHR ''k'' else if c = CHR ''L'' then CHR ''l''
     else if c = CHR ''M'' then CHR ''m'' else if c = CHR ''N'' then CHR ''n''
     else if c = CHR ''O'' then CHR ''o'' else if c = CHR ''P'' then CHR ''p''
     else if c = CHR ''Q'' then CHR ''q'' else if c = CHR ''R'' then CHR ''r''
     else if c = CHR ''S'' then CHR ''s'' else if c = CHR ''T'' then CHR ''t''
     else if c = CHR ''U'' then CHR ''u'' else if c = CHR ''V'' then CHR ''v''
     else if c = CHR ''W'' then CHR ''w'' else if c = CHR ''X'' then CHR ''x''
     else if c = CHR ''Y'' then CHR ''y'' else if c = CHR ''Z'' then CHR ''z'' else c)"
  by (simp add: lower_char_def upper_letters_def lower_letters_def)


lemma lower_char_inv:
  "lower_char c = CHR ''a'' \<Longrightarrow> c = CHR ''a'' \<or> c = CHR ''A''"
  "lower_char c = CHR ''b'' \<Longrightarrow> c = CHR ''b'' \<or> c = CHR ''B''"
  "lower_char c = CHR ''c'' \<Longrightarrow> c = CHR ''c'' \<or> c = CHR ''C''"
  "lower_char c = CHR ''d'' \<Longrightarrow> c = CHR ''d'' \<or> c = CHR ''D''"
  "lower_char c = CHR ''e'' \<Longrightarrow> c = CHR ''e'' \<or> c = CHR ''E''"
  "lower_char c = CHR ''g'' \<Longrightarrow> c = CHR ''g'' \<or> c = CHR ''G''"
  "lower_char c = CHR ''l'' \<Longrightarrow> c = CHR ''l'' \<or> c = CHR ''L''"
  "lower_char c = CHR ''p'' \<Longrightarrow> c = CHR ''p'' \<or> c = CHR ''P''"
  "lower_char c = CHR ''t'' \<Longrightarrow> c = CHR ''t'' \<or> c = CHR ''T''"
  "lower_char c = CHR ''u'' \<Longrightarrow> c = CHR ''u'' \<or> c = CHR ''U''"
  unfolding lower_char_eq by (simp_all split: if_splits)

lemma p_not_space: "lower_char c = CHR ''p'' \<Longrightarrow> \<not> is_space c"
  using lower_char_inv(8) [of c] by (auto simp: is_space_def)

lemma digit_not_space: "is_digit c \<Longrightarrow> \<not> is_space c"
  by (auto simp: is_digit_def is_space_def)

lemma dropWhile_spaces:
  "list_all is_space ws \<Longrightarrow> \<not> is_space y \<Longrightarrow> dropWhile is_space (ws @ y # ys) = y # ys"
  by (induction ws) simp_all

lemma strip_last_not_space: "strip s \<noteq> [] \<Longrightarrow> \<not> is_space (last (strip s))"
proof -
  assume ne: "strip s \<noteq> []"
  define u where "u = dropWhile is_space (rev (dropWhile is_space s))"
  have s: "strip s = rev u" by (simp add: strip_def u_def)
  with ne have "u \<noteq> []" by simp
  then have "\<not> is_space (hd u)" unfolding u_def by (rule hd_dropWhile)
  moreover have "last (rev u) = hd u" using \<open>u \<noteq> []\<close> by (simp add: last_rev)
  ultimately show ?thesis by (simp add: s)
qed

lemma length6: "length w = 6 \<Longrightarrow> \<exists>a b c d e f. w = [a, b, c, d, e, f]"
  by (auto simp: length_Suc_conv numeral_eq_Suc)

lemma title6:
  "is_letter a \<Longrightarrow> is_letter b \<Longrightarrow> is_letter c \<Longrightarrow> is_letter d \<Longrightarrow> is_letter e \<Longrightarrow>
   title [a, b, c, d, e, f]
     = [upper_char a, lower_char b, lower_char c, lower_char d, lower_char e, lower_char f]"
  by (simp add: title_def)

lemma lower_char_not_upper: "c \<notin> set upper_letters \<Longrightarrow> lower_char c = c"
  by (simp add: lower_char_eq upper_letters_def)

lemma is_letter_lower: "lower_char c \<in> set lower_letters \<Longrightarrow> is_letter c"
  by (cases "c \<in> set upper_letters") (simp_all add: is_letter_def lower_char_not_upper)

lemma upper_char_A: "lower_char c = CHR ''a'' \<Longrightarrow> upper_char c = CHR ''A''"
proof -
  assume "lower_char c = CHR ''a''"
  then have "c = CHR ''a'' \<or> c = CHR ''A''" by (rule lower_char_inv(1))
  then show ?thesis
    by (elim disjE) (simp_all add: lower_letters_def upper_letters_def upper_char_def)
qed

lemma upper_char_B: "lower_char c = CHR ''b'' \<Longrightarrow> upper_char c = CHR ''B''"
proof -
  assume "lower_char c = CHR ''b''"
  then have "c = CHR ''b'' \<or> c = CHR ''B''" by (rule lower_char_inv(2))
  then show ?thesis
    by (elim disjE) (simp_all add: lower_letters_def upper_letters_def upper_char_def)
qed

lemma title_lower6:
  assumes "lower w = [a, b, c, d, e, f]"
    and "a \<in> set lower_letters" "b \<in> set lower_letters" "c \<in> set lower_letters"
      "d \<in> set lower_letters" "e \<in> set lower_letters"
  shows "title w = upper_char (hd w) # [b, c, d, e, f]"
proof -
  have "length (lower w) = 6" by (simp add: assms(1))
  then have "length w = 6" by (simp add: lower_def)
  then obtain a' b' c' d' e' f' where w: "w = [a', b', c', d', e', f']" using length6 by blast
  have l: "lower_char a' = a" "lower_char b' = b" "lower_char c' = c"
      "lower_char d' = d" "lower_char e' = e" "lower_char f' = f"
    using assms(1) by (simp_all add: w lower_def)
  have "is_letter a'" "is_letter b'" "is_letter c'" "is_letter d'" "is_letter e'"
    using assms(2-6) l by (simp_all add: is_letter_lower)
  then show ?thesis by (simp add: title6 w l)
qed

lemma title_actual: "lower w = ''actual'' \<Longrightarrow> title w = ''Actual''"
proof -
  assume a: "lower w = ''actual''"
  then have "w \<noteq> []" by (auto simp: lower_def)
  with a have "lower_char (hd w) = CHR ''a''" by (cases w) (simp_all add: lower_def)
  then have u: "upper_char (hd w) = CHR ''A''" by (rule upper_char_A)
  have "title w = upper_char (hd w) # ''ctual''"
    by (rule title_lower6 [OF a]) (simp_all add: lower_letters_def)
  with u show ?thesis by simp
qed

lemma title_budget: "lower w = ''budget'' \<Longrightarrow> title w = ''Budget''"
proof -
  assume a: "lower w = ''budget''"
  then have "w \<noteq> []" by (auto simp: lower_def)
  with a have "lower_char (hd w) = CHR ''b''" by (cases w) (simp_all add: lower_def)
  then have u: "upper_char (hd w) = CHR ''B''" by (rule upper_char_B)
  have "title w = upper_char (hd w) # ''udget''"
    by (rule title_lower6 [OF a]) (simp_all add: lower_letters_def)
  with u show ?thesis by simp
qed

lemma length3: "length w = 3 \<Longrightarrow> \<exists>a b c. w = [a, b, c]"
  by (auto simp: length_Suc_conv numeral_eq_Suc)

lemma length4: "length w = 4 \<Longrightarrow> \<exists>a b c d. w = [a, b, c, d]"
  by (auto simp: length_Suc_conv numeral_eq_Suc)

lemma scenario_length:
  "lower g = ''actual'' \<or> lower g = ''budget'' \<Longrightarrow> length g = 6"
proof -
  assume "lower g = ''actual'' \<or> lower g = ''budget''"
  then have "length (lower g) = 6" by auto
  then show ?thesis by (simp add: lower_def)
qed

lemma match_pnl_complete:
  assumes t: "t = g1 @ ws1 @ pl @ ws2 @ g2 @ nl"
    and g1: "lower g1 = ''actual'' \<or> lower g1 = ''budget''"
    and ws1: "ws1 \<noteq> []" "list_all is_space ws1"
    and pl: "lower pl = ''p&l''"
    and ws2: "ws2 \<noteq> []" "list_all is_space ws2"
    and g2: "length g2 = 4" "list_all is_digit g2"
    and nl: "nl = [] \<or> nl = [CHR 0x0A]"
  shows "match_pnl t = Some (g1, g2)"
proof -
  have l6: "length g1 = 6" using g1 by (rule scenario_length)
  have "length (lower pl) = 3" by (simp add: pl)
  then have "length pl = 3" by (simp add: lower_def)
  then obtain p1 p2 p3 where p: "pl = [p1, p2, p3]" using length3 by blast
  have "lower_char p1 = CHR ''p''" using pl by (simp add: p lower_def)
  then have np: "\<not> is_space p1" by (rule p_not_space)
  obtain d1 d2 d3 d4 where d: "g2 = [d1, d2, d3, d4]" using length4 [OF g2(1)] by blast
  have nd: "\<not> is_space d1" using g2(2) by (simp add: d digit_not_space)
  have a: "take 6 t = g1" and b: "drop 6 t = ws1 @ pl @ ws2 @ g2 @ nl"
    using l6 by (simp_all add: t)
  have c: "dropWhile is_space (ws1 @ pl @ ws2 @ g2 @ nl) = pl @ ws2 @ g2 @ nl"
    using dropWhile_spaces [OF ws1(2) np] by (simp add: p)
  have c': "pl @ ws2 @ g2 @ nl \<noteq> ws1 @ pl @ ws2 @ g2 @ nl"
  proof
    assume "pl @ ws2 @ g2 @ nl = ws1 @ pl @ ws2 @ g2 @ nl"
    then have "length (pl @ ws2 @ g2 @ nl) = length (ws1 @ pl @ ws2 @ g2 @ nl)" by simp
    with ws1(1) show False by simp
  qed
  have e: "take 3 (pl @ ws2 @ g2 @ nl) = pl" and f: "drop 3 (pl @ ws2 @ g2 @ nl) = ws2 @ g2 @ nl"
    by (simp_all add: p)
  have g: "dropWhile is_space (ws2 @ g2 @ nl) = g2 @ nl"
    using dropWhile_spaces [OF ws2(2) nd] by (simp add: d)
  have g': "g2 @ nl \<noteq> ws2 @ g2 @ nl"
  proof
    assume "g2 @ nl = ws2 @ g2 @ nl"
    then have "length (g2 @ nl) = length (ws2 @ g2 @ nl)" by simp
    with ws2(1) show False by simp
  qed
  have h: "take 4 (g2 @ nl) = g2" and i: "drop 4 (g2 @ nl) = nl"
    using g2(1) by simp_all
  show ?thesis
    unfolding match_pnl_def Let_def a b c e f g h i
    using g1 c' pl g' g2 nl by simp
qed

lemma match_pnl_sound:
  assumes "match_pnl t = Some (g1, g2)"
  shows "\<exists>ws1 pl ws2 nl. t = g1 @ ws1 @ pl @ ws2 @ g2 @ nl
      \<and> (lower g1 = ''actual'' \<or> lower g1 = ''budget'')
      \<and> ws1 \<noteq> [] \<and> list_all is_space ws1
      \<and> lower pl = ''p&l''
      \<and> ws2 \<noteq> [] \<and> list_all is_space ws2
      \<and> length g2 = 4 \<and> list_all is_digit g2
      \<and> (nl = [] \<or> nl = [CHR 0x0A])"
proof -
  define r1 where "r1 = drop 6 t"
  define r2 where "r2 = dropWhile is_space r1"
  define r3 where "r3 = drop 3 r2"
  define r4 where "r4 = dropWhile is_space r3"
  define r5 where "r5 = drop 4 r4"
  define cnd where "cnd \<longleftrightarrow>
      (lower (take 6 t) = ''actual'' \<or> lower (take 6 t) = ''budget'')
      \<and> r2 \<noteq> r1 \<and> lower (take 3 r2) = ''p&l'' \<and> r4 \<noteq> r3
      \<and> length (take 4 r4) = 4 \<and> list_all is_digit (take 4 r4)
      \<and> (r5 = [] \<or> r5 = [CHR 0x0A])"
  have m: "match_pnl t = (if cnd then Some (take 6 t, take 4 r4) else None)"
    unfolding match_pnl_def Let_def cnd_def r1_def r2_def r3_def r4_def r5_def by (rule refl)
  have cnd: cnd
  proof (rule ccontr)
    assume "\<not> cnd"
    then have "match_pnl t = None" unfolding m by (simp only: if_False)
    with assms show False by simp
  qed
  then have "Some (take 6 t, take 4 r4) = Some (g1, g2)"
    using assms unfolding m by (simp only: if_True)
  then have g: "g1 = take 6 t" "g2 = take 4 r4" by simp_all
  have c: "lower (take 6 t) = ''actual'' \<or> lower (take 6 t) = ''budget''"
      "r2 \<noteq> r1" "lower (take 3 r2) = ''p&l''" "r4 \<noteq> r3"
      "length (take 4 r4) = 4" "list_all is_digit (take 4 r4)" "r5 = [] \<or> r5 = [CHR 0x0A]"
    using cnd unfolding cnd_def by blast+
  define ws1 where "ws1 = takeWhile is_space r1"
  define ws2 where "ws2 = takeWhile is_space r3"
  have 1: "t = g1 @ r1" by (simp add: g r1_def)
  have 2: "r1 = ws1 @ r2" by (simp add: ws1_def r2_def)
  have 3: "r2 = take 3 r2 @ r3" by (simp add: r3_def)
  have 4: "r3 = ws2 @ r4" by (simp add: ws2_def r4_def)
  have 5: "r4 = g2 @ r5" by (simp add: g r5_def)
  have "r2 = take 3 r2 @ ws2 @ g2 @ r5" using 3 4 5 by simp
  then have "r1 = ws1 @ take 3 r2 @ ws2 @ g2 @ r5" using 2 by simp
  then have d: "t = g1 @ ws1 @ take 3 r2 @ ws2 @ g2 @ r5" using 1 by simp
  have n1: "ws1 \<noteq> []" using c(2) 2 by auto
  have n2: "ws2 \<noteq> []" using c(4) 4 by auto
  have s1: "list_all is_space ws1" and s2: "list_all is_space ws2"
    by (auto simp: ws1_def ws2_def list_all_iff dest: set_takeWhileD)
  have "t = g1 @ ws1 @ take 3 r2 @ ws2 @ g2 @ r5
      \<and> (lower g1 = ''actual'' \<or> lower g1 = ''budget'')
      \<and> ws1 \<noteq> [] \<and> list_all is_space ws1
      \<and> lower (take 3 r2) = ''p&l''
      \<and> ws2 \<noteq> [] \<and> list_all is_space ws2
      \<and> length g2 = 4 \<and> list_all is_digit g2
      \<and> (r5 = [] \<or> r5 = [CHR 0x0A])"
    using d n1 n2 s1 s2 c unfolding g by (intro conjI)
  then show ?thesis by blast
qed

lemma detect_pnl_sheets_set:
  "(s, scen, yr) \<in> set (detect_pnl_sheets names) \<longleftrightarrow>
     s \<in> set names
     \<and> (\<exists>g1 g2. match_pnl (strip s) = Some (g1, g2) \<and> scen = title g1 \<and> yr = digits_val g2)"
  by (induction names) (auto split: option.splits)

lemma detect_pnl_sheets_order:
  "map fst (detect_pnl_sheets names) = filter (\<lambda>s. match_pnl (strip s) \<noteq> None) names"
  by (induction names) (auto split: option.splits)

lemma stripped_no_line_feed:
  assumes "strip s = xs @ nl" "nl = [] \<or> nl = [CHR 0x0A]"
  shows "nl = []"
proof (rule ccontr)
  assume "nl \<noteq> []"
  with assms(2) have nl: "nl = [CHR 0x0A]" by simp
  then have "strip s \<noteq> []" and "last (strip s) = CHR 0x0A" using assms(1) by simp_all
  moreover have "is_space (CHR 0x0A)" by (simp add: is_space_def)
  ultimately show False using strip_last_not_space [of s] by simp
qed

lemmas name_eval =
  match_pnl_def strip_def is_space_def lower_def lower_char_eq is_digit_def title_def
  upper_char_def lower_letters_def upper_letters_def is_letter_def digits_val_def
  digit_val_def literal_pnl_shape_def Let_def

lemma detect_actual_2024:
  "detect_pnl_sheets [''Actual P&L 2024'', ''Quarterly Summary'']
     = [(''Actual P&L 2024'', ''Actual'', 2024)]"
  by (simp add: name_eval)

lemma detect_lower_case:
  "detect_pnl_sheets [''budget p&l 2021''] = [(''budget p&l 2021'', ''Budget'', 2021)]"
  by (simp add: name_eval)

text \<open>
  Claim C9, as stated: the names returned are exactly those of the shape
  \<^verbatim>\<open><Scenario> P&L <Year>\<close>, the scenario in any case. The name \<^verbatim>\<open>budget p&l 2021\<close>
  does not have that shape, since its middle part is not \<^verbatim>\<open>P&L\<close>, and it is returned:
  \<^verbatim>\<open>re.IGNORECASE\<close> applies to the whole pattern.
\<close>

theorem detect_pnl_sheets_not_literal:
  "\<not> literal_pnl_shape (strip ''budget p&l 2021'')
   \<and> detect_pnl_sheets [''budget p&l 2021''] = [(''budget p&l 2021'', ''Budget'', 2021)]"
  by (simp add: detect_lower_case) (simp add: name_eval)

text \<open>
  Claim C9, amended. \<^verbatim>\<open>detect_pnl_sheets\<close> returns \<open>(s, scenario, year)\<close> exactly for
  the names \<open>s\<close> of the workbook whose stripped form is: the word \<^verbatim>\<open>Actual\<close> or
  \<^verbatim>\<open>Budget\<close> in any case, one or more whitespace characters, \<^verbatim>\<open>P&L\<close> in any case,
  one or more whitespace characters, four digits. The scenario returned is \<^verbatim>\<open>Actual\<close>
  or \<^verbatim>\<open>Budget\<close> with that capitalisation, the year is the number the four digits
  denote. The selected names keep the order of the workbook, other names are skipped
  without an error. \<^verbatim>\<open>Actual P&L 2024\<close> gives scenario \<^verbatim>\<open>Actual\<close> and year 2024,
  \<^verbatim>\<open>Quarterly Summary\<close> is skipped.
\<close>

theorem detect_pnl_sheets_selects:
  "((s, scen, yr) \<in> set (detect_pnl_sheets names) \<longleftrightarrow>
      s \<in> set names
      \<and> (\<exists>w ws1 pl ws2 ds.
            strip s = w @ ws1 @ pl @ ws2 @ ds
            \<and> (lower w = ''actual'' \<and> scen = ''Actual'' \<or> lower w = ''budget'' \<and> scen = ''Budget'')
            \<and> ws1 \<noteq> [] \<and> list_all is_space ws1
            \<and> lower pl = ''p&l''
            \<and> ws2 \<noteq> [] \<and> list_all is_space ws2
            \<and> length ds = 4 \<and> list_all is_digit ds \<and> yr = digits_val ds))
   \<and> map fst (detect_pnl_sheets names)
       = filter (\<lambda>s. \<exists>scen yr. (s, scen, yr) \<in> set (detect_pnl_sheets names)) names
   \<and> detect_pnl_sheets [''Actual P&L 2024'', ''Quarterly Summary'']
       = [(''Actual P&L 2024'', ''Actual'', 2024)]"
proof (intro conjI)
  show "(s, scen, yr) \<in> set (detect_pnl_sheets names) \<longleftrightarrow>
      s \<in> set names
      \<and> (\<exists>w ws1 pl ws2 ds.
            strip s = w @ ws1 @ pl @ ws2 @ ds
            \<and> (lower w = ''actual'' \<and> scen = ''Actual'' \<or> lower w = ''budget'' \<and> scen = ''Budget'')
            \<and> ws1 \<noteq> [] \<and> list_all is_space ws1
            \<and> lower pl = ''p&l''
            \<and> ws2 \<noteq> [] \<and> list_all is_space ws2
            \<and> length ds = 4 \<and> list_all is_digit ds \<and> yr = digits_val ds)"
    (is "?L \<longleftrightarrow> ?R")
  proof
    assume ?L
    then obtain g1 g2 where mem: "s \<in> set names"
      and m: "match_pnl (strip s) = Some (g1, g2)"
      and res: "scen = title g1" "yr = digits_val g2"
      unfolding detect_pnl_sheets_set by blast
    from match_pnl_sound [OF m] obtain ws1 pl ws2 nl where
      d: "strip s = g1 @ ws1 @ pl @ ws2 @ g2 @ nl"
      and g1: "lower g1 = ''actual'' \<or> lower g1 = ''budget''"
      and rest: "ws1 \<noteq> []" "list_all is_space ws1" "lower pl = ''p&l''"
        "ws2 \<noteq> []" "list_all is_space ws2" "length g2 = 4" "list_all is_digit g2"
      and nl: "nl = [] \<or> nl = [CHR 0x0A]"
      by blast
    have "strip s = (g1 @ ws1 @ pl @ ws2 @ g2) @ nl" using d by simp
    then have "nl = []" using nl by (rule stripped_no_line_feed)
    then have d': "strip s = g1 @ ws1 @ pl @ ws2 @ g2" using d by simp
    have sc: "lower g1 = ''actual'' \<and> scen = ''Actual'' \<or> lower g1 = ''budget'' \<and> scen = ''Budget''"
      using g1 res(1) title_actual [of g1] title_budget [of g1] by blast
    show ?R using mem d' sc rest res(2) by blast
  next
    assume ?R
    then obtain w ws1 pl ws2 ds where mem: "s \<in> set names"
      and d: "strip s = w @ ws1 @ pl @ ws2 @ ds"
      and sc: "lower w = ''actual'' \<and> scen = ''Actual'' \<or> lower w = ''budget'' \<and> scen = ''Budget''"
      and rest: "ws1 \<noteq> []" "list_all is_space ws1" "lower pl = ''p&l''"
        "ws2 \<noteq> []" "list_all is_space ws2" "length ds = 4" "list_all is_digit ds"
      and yr: "yr = digits_val ds"
      by blast
    have g1: "lower w = ''actual'' \<or> lower w = ''budget''" using sc by blast
    have "strip s = w @ ws1 @ pl @ ws2 @ ds @ []" using d by simp
    then have "match_pnl (strip s) = Some (w, ds)"
      using g1 rest by (rule match_pnl_complete) simp
    moreover have "scen = title w"
      using sc title_actual [of w] title_budget [of w] by auto
    ultimately show ?L using mem yr unfolding detect_pnl_sheets_set by blast
  qed
next
  have "(\<exists>scen yr. (s, scen, yr) \<in> set (detect_pnl_sheets ns)) \<longleftrightarrow>
      s \<in> set ns \<and> match_pnl (strip s) \<noteq> None" for s ns
    unfolding detect_pnl_sheets_set by auto
  then have "filter (\<lambda>s. \<exists>scen yr. (s, scen, yr) \<in> set (detect_pnl_sheets names)) names
      = filter (\<lambda>s. match_pnl (strip s) \<noteq> None) names"
    by (intro filter_cong) auto
  then show "map fst (detect_pnl_sheets names)
      = filter (\<lambda>s. \<exists>scen yr. (s, scen, yr) \<in> set (detect_pnl_sheets names)) names"
    by (simp only: detect_pnl_sheets_order)
next
  show "detect_pnl_sheets [''Actual P&L 2024'', ''Quarterly Summary'']
       = [(''Actual P&L 2024'', ''Actual'', 2024)]"
    by (rule detect_actual_2024)
qed

section \<open>Properties of \<^verbatim>\<open>extract_table_using_header\<close>\<close>

lemma is_blank_col_Nil: "is_blank_col []"
  by (simp add: is_blank_col_def)

lemma blank_cols_no_rows: "rows df = [] \<Longrightarrow> blank_cols df = columns df"
proof -
  assume "rows df = []"
  then have "column_at df j = []" for j by (simp add: column_at_def)
  then have "blank_cols df = map fst (zip (columns df) [0 ..< length (columns df)])"
    by (simp add: blank_cols_def is_blank_col_Nil)
  then show ?thesis by simp
qed

lemma drop_blank_no_rows:
  assumes "rows df = []" "distinct (columns df)"
  shows "drop_blank df = Inr \<lparr>columns = [], rows = []\<rparr>"
proof -
  have r: "rows (dropna_all df) = []" and c: "columns (dropna_all df) = columns df"
    using assms(1) by (simp_all add: dropna_all_def)
  have b: "blank_cols (dropna_all df) = columns df"
    using blank_cols_no_rows [OF r] c by simp
  show ?thesis
  proof (cases "columns df = []")
    case True
    then show ?thesis
      using assms r c b by (simp add: drop_blank_def Let_def dropna_all_def)
  next
    case False
    then show ?thesis
      using assms r c b by (simp add: drop_blank_def Let_def drop_columns_def)
  qed
qed

text \<open>
  Claim C7, as stated: a header index beyond the last row gives an empty table. On a
  grid of one row, the index 1 raises \<^verbatim>\<open>IndexError\<close>.
\<close>

theorem extract_table_beyond_last_row:
  "extract_table_using_header [[VStr ''Account'', VStr ''Jan'']] 1 = Inl IndexError"
  by (simp add: extract_table_using_header_def)

text \<open>
  Claim C7, amended. For every grid and every header index such that index + 1 exceeds
  the number of rows, \<^verbatim>\<open>extract_table_using_header\<close> raises \<^verbatim>\<open>IndexError\<close> and
  returns no table. The empty table is the result when the header is the last row
  (index + 1 equals the number of rows) and its labels are distinct.
\<close>

theorem extract_table_header_out_of_range:
  "(int (length raw_df) < header_row + 1 \<longrightarrow>
      extract_table_using_header raw_df header_row = Inl IndexError)
   \<and> (0 \<le> header_row \<and> header_row + 1 = int (length raw_df)
        \<and> distinct (map normalize_text (raw_df ! nat header_row)) \<longrightarrow>
      extract_table_using_header raw_df header_row = Inr \<lparr>columns = [], rows = []\<rparr>)"
proof (intro conjI impI)
  assume "int (length raw_df) < header_row + 1"
  then show "extract_table_using_header raw_df header_row = Inl IndexError"
    by (simp add: extract_table_using_header_def)
next
  assume a: "0 \<le> header_row \<and> header_row + 1 = int (length raw_df)
        \<and> distinct (map normalize_text (raw_df ! nat header_row))"
  then have n: "nat (header_row + 1) = length raw_df" by linarith
  have s: "slice_from raw_df (header_row + 1) = []"
    using a n by (simp add: slice_from_def)
  have "drop_blank \<lparr>columns = map normalize_text (raw_df ! nat header_row), rows = []\<rparr>
      = Inr \<lparr>columns = [], rows = []\<rparr>"
    using a by (intro drop_blank_no_rows) simp_all
  then show "extract_table_using_header raw_df header_row = Inr \<lparr>columns = [], rows = []\<rparr>"
    using a s by (simp add: extract_table_using_header_def Let_def)
qed

theorem extract_table_header_out_of_range_witness:
  "int (length [[VStr ''Account'', VStr ''Jan'']]) < 5 + 1
   \<and> extract_table_using_header [[VStr ''Account'', VStr ''Jan'']] 5 = Inl IndexError
   \<and> (0::int) \<le> 0 \<and> 0 + 1 = int (length [[VStr ''Account'', VStr ''Jan'']])
   \<and> distinct (map normalize_text ([[VStr ''Account'', VStr ''Jan'']] ! nat 0))
   \<and> extract_table_using_header [[VStr ''Account'', VStr ''Jan'']] 0
       = Inr \<lparr>columns = [], rows = []\<rparr>"
proof -
  have d: "distinct (map normalize_text ([[VStr ''Account'', VStr ''Jan'']] ! nat 0))"
    by (simp add: normalize_text_def is_nan_cell_def strip_def is_space_def)
  show ?thesis
    using extract_table_header_out_of_range [of "[[VStr ''Account'', VStr ''Jan'']]" 5]
      extract_table_header_out_of_range [of "[[VStr ''Account'', VStr ''Jan'']]" 0] d
    by simp
qed

text \<open>
  Claim C3 on three grids, each with the header in row 0. A data row of
  whitespace-only texts is kept: \<^verbatim>\<open>dropna(how="all")\<close> drops only rows of missing
  cells. A column that holds a missing cell and a whitespace-only text is kept:
  \<^verbatim>\<open>astype(str)\<close> turns the missing cell into the text \<^verbatim>\<open>None\<close>. A header with a
  repeated label raises \<^verbatim>\<open>ValueError\<close>.
\<close>

theorem extract_table_keeps_whitespace_row:
  "extract_table_using_header
     [[VStr ''Account'', VStr ''Jan''], [VStr ''  '', VStr '' ''], [VStr ''4001'', VInt 5]] 0
     = Inr \<lparr>columns = [''Account'', ''Jan''],
            rows = [[VStr ''  '', VStr '' ''], [VStr ''4001'', VInt 5]]\<rparr>
   \<and> list_all blank_cell [VStr ''  '', VStr '' '']
   \<and> extract_table_using_header
     [[VStr ''Account'', VStr ''Jan''], [VNone, VStr ''x''], [VStr ''  '', VStr ''y'']] 0
     = Inr \<lparr>columns = [''Account'', ''Jan''],
            rows = [[VNone, VStr ''x''], [VStr ''  '', VStr ''y'']]\<rparr>
   \<and> list_all blank_cell [VNone, VStr ''  '']
   \<and> extract_table_using_header
     [[VStr ''Jan'', VStr ''Jan''], [VStr ''4001'', VInt 5]] 0 = Inl ValueError"
  by code_simp

text \<open>
  Claim C8 on the table with columns \<^verbatim>\<open>a\<close>, \<^verbatim>\<open>b\<close> and the rows
  \<^verbatim>\<open>(None, " ")\<close> and \<^verbatim>\<open>("x", " ")\<close>. The first removal keeps both rows, neither
  being all missing, and drops column \<^verbatim>\<open>b\<close>; the second removal then drops the
  first row, which has become all missing.
\<close>

theorem drop_blank_not_idempotent:
  "drop_blank \<lparr>columns = [''a'', ''b''], rows = [[VNone, VStr '' ''], [VStr ''x'', VStr '' '']]\<rparr>
     = Inr \<lparr>columns = [''a''], rows = [[VNone], [VStr ''x'']]\<rparr>
   \<and> drop_blank \<lparr>columns = [''a''], rows = [[VNone], [VStr ''x'']]\<rparr>
     = Inr \<lparr>columns = [''a''], rows = [[VStr ''x'']]\<rparr>
   \<and> \<lparr>columns = [''a''], rows = [[VNone], [VStr ''x'']]\<rparr>
     \<noteq> \<lparr>columns = [''a''], rows = [[VStr ''x'']]\<rparr>"
  by code_simp

section \<open>Properties of \<^verbatim>\<open>detect_pnl_row_types\<close>\<close>

lemma count_true_partition: "count_true bs + count_true (map (\<lambda>b. \<not> b) bs) = length bs"
  by (induction bs) (simp_all add: count_true_def)

lemma count_true_zip_le:
  "count_true (map (\<lambda>p. \<not> fst p \<and> P (snd p)) (zip bs xs)) \<le> count_true (map (\<lambda>b. \<not> b) bs)"
proof (induction bs arbitrary: xs)
  case Nil
  then show ?case by (simp add: count_true_def)
next
  case (Cons b bs)
  show ?case
  proof (cases xs)
    case Nil
    then show ?thesis by (simp add: count_true_def)
  next
    case (Cons x xs')
    with Cons.IH [of xs'] show ?thesis by (simp add: count_true_def)
  qed
qed

lemma map_fst_filter_zip:
  "length xs = length ys \<Longrightarrow> map fst (filter (\<lambda>p. P (fst p)) (zip xs ys)) = filter P xs"
  by (induction xs ys rule: list_induct2) simp_all

lemma get_column_length: "get_column df c = Inr col \<Longrightarrow> length col = length (rows df)"
  by (auto simp: get_column_def column_at_def split: list.splits)

text \<open>
  Claim C4, as stated: the four counts add up to the number of rows. On a table of one
  row, with no account code and the line item \<^verbatim>\<open>REVENUE\<close>, the row is counted as a
  section header and again as a non-account row: the four counts add up to 2.
\<close>

theorem row_type_counts_overlap:
  "detect_pnl_row_types
     \<lparr>columns = [''Account'', ''Line Item''], rows = [[VNone, VStr ''REVENUE'']]\<rparr>
     ''Account'' ''Line Item''
   = Inr \<lparr>rows_total = 1, rows_account = 0, rows_section_headers = 1, rows_subtotals = 0,
          rows_other_nonaccount = 1\<rparr>
   \<and> (0::nat) + 1 + 0 + 1 \<noteq> 1"
  by code_simp

text \<open>
  Claim C4, amended. Whenever \<^verbatim>\<open>detect_pnl_row_types\<close> returns its counts, the
  number of account rows plus the number of non-account rows is the number of rows of
  the table: these two counts partition the rows. The section-header rows and the
  subtotal rows are non-account rows, so each of these two counts is at most the
  number of non-account rows and is included in it. The counts are returned for every
  table in which each of the two labels names exactly one column.
\<close>

theorem row_type_counts_partition:
  "(detect_pnl_row_types df account_col line_col = Inr c \<longrightarrow>
      rows_account c + rows_other_nonaccount c = rows_total c
      \<and> rows_section_headers c \<le> rows_other_nonaccount c
      \<and> rows_subtotals c \<le> rows_other_nonaccount c)
   \<and> (length (filter (\<lambda>l. l = account_col) (columns df)) = 1
        \<and> length (filter (\<lambda>l. l = line_col) (columns df)) = 1 \<longrightarrow>
      (\<exists>c. detect_pnl_row_types df account_col line_col = Inr c))"
proof (intro conjI impI)
  assume r: "detect_pnl_row_types df account_col line_col = Inr c"
  then obtain acc_cells line_cells where
    a: "get_column df account_col = Inr acc_cells" and l: "get_column df line_col = Inr line_cells"
    by (auto simp: detect_pnl_row_types_def split: sum.splits)
  define is_account where
    "is_account = map looks_like_account_code (map (\<lambda>x. strip (py_str x)) acc_cells)"
  define line where "line = map (\<lambda>x. strip (py_str x)) line_cells"
  have c: "c = \<lparr>rows_total = length (rows df),
      rows_account = count_true is_account,
      rows_section_headers =
        count_true (map (\<lambda>p. \<not> fst p \<and> isupper (snd p) \<and> snd p \<noteq> '''') (zip is_account line)),
      rows_subtotals =
        count_true (map (\<lambda>p. \<not> fst p \<and> contains_subtotal_word (snd p)) (zip is_account line)),
      rows_other_nonaccount = count_true (map (\<lambda>b. \<not> b) is_account)\<rparr>"
    using r [symmetric] a l
    by (simp add: detect_pnl_row_types_def Let_def is_account_def line_def comp_assoc)
  have len: "length is_account = length (rows df)"
    using get_column_length [OF a] by (simp add: is_account_def)
  show "rows_account c + rows_other_nonaccount c = rows_total c"
    using count_true_partition [of is_account] len by (simp add: c)
  show "rows_section_headers c \<le> rows_other_nonaccount c"
    using count_true_zip_le [of "\<lambda>s. isupper s \<and> s \<noteq> ''''" is_account line] by (simp add: c)
  show "rows_subtotals c \<le> rows_other_nonaccount c"
    using count_true_zip_le [of contains_subtotal_word is_account line] by (simp add: c)
next
  assume u: "length (filter (\<lambda>l. l = account_col) (columns df)) = 1
        \<and> length (filter (\<lambda>l. l = line_col) (columns df)) = 1"
  have one: "\<exists>col. get_column df x = Inr col"
    if "length (filter (\<lambda>l. l = x) (columns df)) = 1" for x
  proof -
    have "map fst (filter (\<lambda>p. fst p = x) (zip (columns df) [0 ..< length (columns df)]))
        = filter (\<lambda>l. l = x) (columns df)"
      by (rule map_fst_filter_zip) simp
    then have "length (filter (\<lambda>p. fst p = x) (zip (columns df) [0 ..< length (columns df)])) = 1"
      using that by (metis length_map)
    then obtain p where
      "filter (\<lambda>p. fst p = x) (zip (columns df) [0 ..< length (columns df)]) = [p]"
      by (auto simp: length_Suc_conv)
    then show ?thesis by (simp add: get_column_def)
  qed
  from one [of account_col] one [of line_col] u
  show "\<exists>c. detect_pnl_row_types df account_col line_col = Inr c"
    by (auto simp: detect_pnl_row_types_def Let_def)
qed

theorem row_type_counts_partition_witness:
  "detect_pnl_row_types
     \<lparr>columns = [''Account'', ''Line Item''],
      rows = [[VNone, VStr ''REVENUE''], [VInt 4001, VStr ''Revenue - Core''],
              [VStr '''', VStr ''TOTAL REVENUE'']]\<rparr>
     ''Account'' ''Line Item''
   = Inr \<lparr>rows_total = 3, rows_account = 1, rows_section_headers = 2, rows_subtotals = 1,
          rows_other_nonaccount = 2\<rparr>
   \<and> (1::nat) + 2 = 3 \<and> (2::nat) \<le> 2 \<and> (1::nat) \<le> 2"
proof -
  have e: "detect_pnl_row_types
     \<lparr>columns = [''Account'', ''Line Item''],
      rows = [[VNone, VStr ''REVENUE''], [VInt 4001, VStr ''Revenue - Core''],
              [VStr '''', VStr ''TOTAL REVENUE'']]\<rparr>
     ''Account'' ''Line Item''
   = Inr \<lparr>rows_total = 3, rows_account = 1, rows_section_headers = 2, rows_subtotals = 1,
          rows_other_nonaccount = 2\<rparr>"
    by code_simp
  show ?thesis
    using row_type_counts_partition
      [of "\<lparr>columns = [''Account'', ''Line Item''],
      rows = [[VNone, VStr ''REVENUE''], [VInt 4001, VStr ''Revenue - Core''],
              [VStr '''', VStr ''TOTAL REVENUE'']]\<rparr>" "''Account''" "''Line Item''"
       "\<lparr>rows_total = 3, rows_account = 1, rows_section_headers = 2, rows_subtotals = 1,
          rows_other_nonaccount = 2\<rparr>"] e
    by simp
qed

section \<open>Properties of \<^verbatim>\<open>wide_to_long_fact\<close>\<close>











lemma cell_at_rows_update [simp]: "cell_at (df\<lparr>rows := rs\<rparr>) = cell_at df"
  by (simp add: cell_at_def fun_eq_iff)

lemma digit_char_inj:
  assumes "0 \<le> a" "a < 10" "0 \<le> b" "b < 10" "digit_char a = digit_char b"
  shows "a = b"
proof -
  have a: "a \<in> {0, 1, 2, 3, 4, 5, 6, 7, 8, 9}" using assms(1,2) by simp presburger
  have b: "b \<in> {0, 1, 2, 3, 4, 5, 6, 7, 8, 9}" using assms(3,4) by simp presburger
  from a b assms(5) show ?thesis
    by (auto simp: digit_char_def eval_nat_numeral)
qed

lemma digits_of_nonempty: "digits_of n \<noteq> []"
  by (subst digits_of.simps) simp

lemma digits_of_inj: "0 \<le> n \<Longrightarrow> 0 \<le> m \<Longrightarrow> digits_of n = digits_of m \<Longrightarrow> n = m"
proof (induction n arbitrary: m rule: digits_of.induct)
  case (1 n)
  show ?case
  proof (cases "n < 10")
    case True
    then have n: "digits_of n = [digit_char n]" by (subst digits_of.simps) simp
    have "m < 10"
    proof (rule ccontr)
      assume "\<not> m < 10"
      then have "digits_of m = digits_of (m div 10) @ [digit_char (m mod 10)]"
        by (subst digits_of.simps) simp
      with n "1.prems"(3) digits_of_nonempty [of "m div 10"] show False by simp
    qed
    then have "digits_of m = [digit_char m]" by (subst digits_of.simps) simp
    with n "1.prems" True \<open>m < 10\<close> show ?thesis by (auto intro: digit_char_inj)
  next
    case False
    then have n: "digits_of n = digits_of (n div 10) @ [digit_char (n mod 10)]"
      by (subst digits_of.simps) simp
    have m10: "\<not> m < 10"
    proof
      assume "m < 10"
      then have "digits_of m = [digit_char m]" by (subst digits_of.simps) simp
      with n "1.prems"(3) digits_of_nonempty [of "n div 10"] show False by simp
    qed
    then have m: "digits_of m = digits_of (m div 10) @ [digit_char (m mod 10)]"
      by (subst digits_of.simps) simp
    from n m "1.prems"(3) have e: "digits_of (n div 10) = digits_of (m div 10)"
        "digit_char (n mod 10) = digit_char (m mod 10)"
      by simp_all
    have "n div 10 = m div 10"
      using "1.IH" [OF False _ _ e(1)] "1.prems" by simp
    moreover have "n mod 10 = m mod 10"
      using e(2) by (intro digit_char_inj) simp_all
    ultimately show ?thesis by (metis div_mult_mod_eq)
  qed
qed

lemma fallback_names_distinct:
  "distinct (map (\<lambda>i. ''Col'' @ str_of_int (int i + 1)) [2 ..< n])"
proof -
  have "inj_on (\<lambda>i. ''Col'' @ str_of_int (int i + 1)) (set [2 ..< n])"
    by (rule inj_onI) (auto simp: str_of_int_def dest!: digits_of_inj [rotated 2])
  then show ?thesis by (simp add: distinct_map)
qed

text \<open>
  The labels that \<^verbatim>\<open>clean_wide_pnl\<close> gives to a sheet of \<open>ncols\<close> columns, followed
  by the three columns it adds, are distinct, contain the columns that
  \<^verbatim>\<open>wide_to_long_fact\<close> reads and do not contain \<^verbatim>\<open>Amount\<close>. For a sheet of 14 or
  of 15 columns the twelve months are among them.
\<close>

lemma clean_wide_pnl_labels:
  "distinct (infer_column_names ncols @ [''IsAccountRow'', ''Scenario'', ''Year''])"
  "set [''IsAccountRow'', ''Account'', ''Line Item'', ''Scenario'', ''Year'']
     \<subseteq> set (infer_column_names ncols @ [''IsAccountRow'', ''Scenario'', ''Year''])"
  "''Amount'' \<notin> set (infer_column_names ncols @ [''IsAccountRow'', ''Scenario'', ''Year''])"
proof -
  show "distinct (infer_column_names ncols @ [''IsAccountRow'', ''Scenario'', ''Year''])"
    using fallback_names_distinct [of ncols]
    by (auto simp: infer_column_names_def MONTHS_def)
  show "set [''IsAccountRow'', ''Account'', ''Line Item'', ''Scenario'', ''Year'']
     \<subseteq> set (infer_column_names ncols @ [''IsAccountRow'', ''Scenario'', ''Year''])"
    by (simp add: infer_column_names_def)
  show "''Amount'' \<notin> set (infer_column_names ncols @ [''IsAccountRow'', ''Scenario'', ''Year''])"
    by (auto simp: infer_column_names_def MONTHS_def)
qed

lemma clean_wide_pnl_months:
  "filter (\<lambda>m. m \<in> set (infer_column_names 14 @ [''IsAccountRow'', ''Scenario'', ''Year'']))
     MONTHS = MONTHS"
  "filter (\<lambda>m. m \<in> set (infer_column_names 15 @ [''IsAccountRow'', ''Scenario'', ''Year'']))
     MONTHS = MONTHS"
  by code_simp+

text \<open>
  A table that already has a column named \<^verbatim>\<open>Amount\<close> is refused by \<^verbatim>\<open>melt\<close>; two
  columns with the same month label each give their rows; a key of integers selects
  the rows by their labels.
\<close>

lemma wide_to_long_fact_amount_column:
  "wide_to_long_fact
     \<lparr>table = \<lparr>columns = [''Account'', ''Line Item'', ''Jan'', ''Amount'', ''IsAccountRow'',
                          ''Scenario'', ''Year''],
               rows = [[VStr ''4001'', VStr ''Revenue'', VFloat (Fin 1), VFloat (Fin 2),
                        VBool True, VStr ''Actual'', VInt 2024]]\<rparr>,
      row_labels = [0]\<rparr> = Inl ValueError"
  by code_simp

lemma wide_to_long_fact_repeated_month:
  "map Amount (long_rows (projr (wide_to_long_fact
     \<lparr>table = \<lparr>columns = [''Account'', ''Line Item'', ''Jan'', ''Jan'', ''IsAccountRow'',
                          ''Scenario'', ''Year''],
               rows = [[VStr ''4001'', VStr ''Revenue'', VInt 1, VInt 2,
                        VBool True, VStr ''Actual'', VInt 2024]]\<rparr>,
      row_labels = [0]\<rparr>))) = [VInt 1, VInt 2]"
  by code_simp

lemma wide_to_long_fact_integer_key:
  "map Account (long_rows (projr (wide_to_long_fact
     \<lparr>table = \<lparr>columns = [''Account'', ''Line Item'', ''Jan'', ''IsAccountRow'',
                          ''Scenario'', ''Year''],
               rows = [[VStr ''4001'', VStr ''Revenue'', VInt 1, VInt 1, VStr ''Actual'', VInt 2024],
                       [VStr ''5001'', VStr ''COGS'', VInt 2, VInt 0, VStr ''Actual'', VInt 2024]]\<rparr>,
      row_labels = [0, 1]\<rparr>))) = [VStr ''5001'', VStr ''4001'']"
  by code_simp






end
